theory Spec2Isabelle
  imports Main
begin

section \<open>Machine integers and error codes\<close>

text \<open>
  The engine computes with \<open>size_t\<close> (unsigned, 64 bit), \<open>off_t\<close> and \<open>ssize_t\<close>
  (signed, 64 bit) and \<open>int\<close>. Sizes and offsets are modelled as \<open>nat\<close>, holding the
  unsigned bit pattern; every place where the source mixes \<open>off_t\<close> with \<open>size_t\<close>
  converts to \<open>size_t\<close>, so the unsigned reading is the one the code computes with.
  The wrap-around of sums and differences and the conversions between signed and
  unsigned are written out.
\<close>

definition u64 :: "nat \<Rightarrow> nat" where
  "u64 n = n mod 2 ^ 64"

definition u64_sub :: "nat \<Rightarrow> nat \<Rightarrow> nat" where
  "u64_sub a b = (if b \<le> a then a - b else u64 (a + 2 ^ 64 - b))"

definition ssize_of :: "nat \<Rightarrow> int" where
  \<comment> \<open>a 64-bit pattern read as \<open>ssize_t\<close>\<close>
  "ssize_of n = (if u64 n < 2 ^ 63 then int (u64 n) else int (u64 n) - 2 ^ 64)"

definition size_of_int :: "int \<Rightarrow> nat" where
  \<comment> \<open>the cast \<open>(size_t) r\<close> of a signed value\<close>
  "size_of_int r = nat (r mod 2 ^ 64)"

definition EINVAL :: int where "EINVAL = 22"
definition ENOENT :: int where "ENOENT = 2"
definition EFBIG :: int where "EFBIG = 27"
definition EOVERFLOW :: int where "EOVERFLOW = 75"
definition ECANCELED :: int where "ECANCELED = 125"

section \<open>The size attribute: hexadecimal encoding and comparison\<close>

text \<open>
  Modelled from the spec: \<open>fileSizeToHex\<close> is declared in \<open>radosfscommon.h\<close>, which is not
  among the sources. The specification describes the \<open>file_size\<close> entry as a
  zero-padded lowercase hexadecimal string of fixed width, wide enough that the
  lexicographic order is the numeric order; sixteen digits hold every \<open>size_t\<close>.
\<close>

definition hexdigit :: "nat \<Rightarrow> char" where
  "hexdigit d = ''0123456789abcdef'' ! d"

fun hex_fixed :: "nat \<Rightarrow> nat \<Rightarrow> string" where
  "hex_fixed 0 n = []"
| "hex_fixed (Suc w) n = hex_fixed w (n div 16) @ [hexdigit (n mod 16)]"

definition fileSizeToHex :: "nat \<Rightarrow> string" where
  "fileSizeToHex n = hex_fixed 16 n"

text \<open>
  \<open>strtoul(s, 0, 16)\<close> of the C library on a string without leading white space, sign
  or \<open>0x\<close> prefix: the value of the longest prefix of hexadecimal digits, \<open>ULONG_MAX\<close>
  when it does not fit.
\<close>

definition hexval :: "char \<Rightarrow> nat option" where
  "hexval c =
     (let k = (of_char c :: nat) in
      if 48 \<le> k \<and> k \<le> 57 then Some (k - 48)
      else if 97 \<le> k \<and> k \<le> 102 then Some (k - 87)
      else if 65 \<le> k \<and> k \<le> 70 then Some (k - 55)
      else None)"

fun strtoul_acc :: "nat \<Rightarrow> string \<Rightarrow> nat" where
  "strtoul_acc a [] = a"
| "strtoul_acc a (c # cs) =
     (case hexval c of None \<Rightarrow> a | Some d \<Rightarrow> strtoul_acc (16 * a + d) cs)"

definition strtoul16 :: "string \<Rightarrow> nat" where
  "strtoul16 s = min (strtoul_acc 0 s) (2 ^ 64 - 1)"

text \<open>
  The comparison the store applies for \<open>LIBRADOS_CMPXATTR_OP_LT\<close>: the byte-wise
  lexicographic order of two buffers, a proper prefix being the smaller one.
\<close>

fun bl_less :: "string \<Rightarrow> string \<Rightarrow> bool" where
  "bl_less [] [] = False"
| "bl_less [] (y # ys) = True"
| "bl_less (x # xs) [] = False"
| "bl_less (x # xs) (y # ys) =
     (if (of_char x :: nat) < of_char y then True
      else if (of_char y :: nat) < of_char x then False
      else bl_less xs ys)"

section \<open>The object store, as seen from one inode\<close>

text \<open>
  The pool is the external collaborator (librados). Only the objects of one inode
  matter here, and \<open>makeFileStripeName\<close> (not among the sources) names them from the
  stripe index, the base object being index 0; the objects are therefore keyed by
  stripe index. An object carries its bytes and the one omap entry the engine reads
  and writes, \<open>XATTR_FILE_SIZE\<close>.

  The operations follow the librados interface: a read of a missing object answers
  \<open>-ENOENT\<close>, a read past the end is short; a write creates the object and pads a gap
  with zero bytes; \<open>assert_exists\<close> makes a compound operation fail, without effect,
  on a missing object; \<open>omap_set\<close> creates the object; a failed \<open>omap_cmp\<close> cancels the
  compound operation with \<open>-ECANCELED\<close>, and a missing entry compares as the empty
  buffer. Every request is applied at once: one client, no failures of the store
  itself.
\<close>

record object =
  data :: string
  omap_file_size :: "string option"

type_synonym pool = "nat \<rightharpoonup> object"

definition zeros :: "nat \<Rightarrow> string" where
  "zeros n = replicate n (CHR 0x00)"

definition write_at :: "string \<Rightarrow> nat \<Rightarrow> string \<Rightarrow> string" where
  "write_at d off bs = take off d @ zeros (off - length d) @ bs @ drop (off + length bs) d"

definition ioctx_read :: "pool \<Rightarrow> nat \<Rightarrow> nat \<Rightarrow> nat \<Rightarrow> int \<times> string" where
  "ioctx_read p i len off =
     (case p i of
        None \<Rightarrow> (- ENOENT, [])
      | Some ob \<Rightarrow> (let bl = take len (drop off (data ob)) in (int (length bl), bl)))"

definition op_write :: "pool \<Rightarrow> nat \<Rightarrow> nat \<Rightarrow> string \<Rightarrow> pool" where
  "op_write p i off bs =
     (case p i of
        None \<Rightarrow> p(i \<mapsto> \<lparr>data = write_at [] off bs, omap_file_size = None\<rparr>)
      | Some ob \<Rightarrow> p(i \<mapsto> ob\<lparr>data := write_at (data ob) off bs\<rparr>))"

definition op_write_assert_exists :: "pool \<Rightarrow> nat \<Rightarrow> nat \<Rightarrow> string \<Rightarrow> pool" where
  "op_write_assert_exists p i off bs =
     (case p i of
        None \<Rightarrow> p
      | Some ob \<Rightarrow> p(i \<mapsto> ob\<lparr>data := write_at (data ob) off bs\<rparr>))"

definition op_truncate_assert_exists :: "pool \<Rightarrow> nat \<Rightarrow> nat \<Rightarrow> pool" where
  "op_truncate_assert_exists p i n =
     (case p i of
        None \<Rightarrow> p
      | Some ob \<Rightarrow> p(i \<mapsto> ob\<lparr>data := take n (data ob) @ zeros (n - length (data ob))\<rparr>))"

definition op_remove :: "pool \<Rightarrow> nat \<Rightarrow> pool" where
  "op_remove p i = p(i := None)"

definition stored_size_attr :: "pool \<Rightarrow> string" where
  "stored_size_attr p =
     (case p 0 of
        None \<Rightarrow> []
      | Some ob \<Rightarrow> (case omap_file_size ob of None \<Rightarrow> [] | Some s \<Rightarrow> s))"

definition op_omap_set :: "pool \<Rightarrow> string \<Rightarrow> pool" where
  "op_omap_set p s =
     (case p 0 of
        None \<Rightarrow> p(0 \<mapsto> \<lparr>data = [], omap_file_size = Some s\<rparr>)
      | Some ob \<Rightarrow> p(0 \<mapsto> ob\<lparr>omap_file_size := Some s\<rparr>))"

section \<open>The engine\<close>

text \<open>
  \<open>FileIO\<close> is bound to a pool, an inode and a stripe size; the constructor asserts
  that the stripe size is not 0. The advisory locks (\<open>lockShared\<close>, \<open>lockExclusive\<close> and
  their release), the update of the modification time and the debug messages are left
  out: they depend on the wall clock and touch neither the bytes of an object nor the
  size entry. The requests that the source hands to the store asynchronously go to
  different objects and are awaited before \<open>realWrite\<close>, \<open>remove\<close> and \<open>truncate\<close> return;
  they are applied in the order of submission. The status an operation collects from
  its completions is not kept: none of the operations below looks at it.
\<close>

record config =
  stripe_size :: nat
  pool_size :: nat
  has_alignment :: bool

text \<open>
  Modelled from the spec: \<open>FileInlineBuffer\<close> is not among the sources. It holds the
  leading bytes of the file up to a fixed capacity; \<open>write\<close> places the part of the
  range that lies below the capacity and answers the number of bytes placed;
  \<open>fillRemainingInlineBuffer\<close> pads the contents with zero bytes up to the capacity;
  \<open>truncate\<close> shrinks the contents.
\<close>

record inline_buffer =
  capacity :: nat
  contents :: string

definition ib_write :: "inline_buffer \<Rightarrow> string \<Rightarrow> nat \<Rightarrow> nat \<Rightarrow> int \<times> inline_buffer" where
  "ib_write ib buff offset blen =
     (let n = min blen (capacity ib - offset)
      in (int n, ib\<lparr>contents := write_at (contents ib) offset (take n buff)\<rparr>))"

definition ib_fillRemaining :: "inline_buffer \<Rightarrow> int \<times> inline_buffer" where
  "ib_fillRemaining ib =
     (0, ib\<lparr>contents := contents ib @ zeros (capacity ib - length (contents ib))\<rparr>)"


text \<open>
  Modelled from the spec: \<open>AsyncOp\<close> is not among the sources. An operation has an
  identifier and becomes ready when its submitter calls \<open>setReady\<close>; waiting for an
  operation that is never made ready does not return. The identifiers that
  \<open>generateUuid\<close> draws are taken from a counter.
\<close>

record async_op =
  op_id :: nat
  ready :: bool

record task =
  t_buff :: string
  t_offset :: nat
  t_blen :: nat
  t_op :: nat

record fileio =
  objs :: pool
  mOperations :: "async_op list"
  uuid_next :: nat
  mInlineBuffer :: "inline_buffer option"
  posted :: "task list"

definition fresh :: fileio where
  \<comment> \<open>the engine as its constructor leaves it, over a pool without objects of the inode\<close>
  "fresh = \<lparr>objs = Map.empty, mOperations = [], uuid_next = 0,
             mInlineBuffer = None, posted = []\<rparr>"

definition addOperation :: "fileio \<Rightarrow> nat \<Rightarrow> fileio" where
  "addOperation st i = st\<lparr>mOperations := mOperations st @ [\<lparr>op_id = i, ready = False\<rparr>]\<rparr>"

definition setReady :: "fileio \<Rightarrow> nat \<Rightarrow> fileio" where
  "setReady st i =
     st\<lparr>mOperations := map (\<lambda>a. if op_id a = i then a\<lparr>ready := True\<rparr> else a) (mOperations st)\<rparr>"

definition OpsManager_sync :: "fileio \<Rightarrow> fileio option" where
  \<comment> \<open>waits for every registered operation and forgets it; \<open>None\<close>: the wait never ends\<close>
  "OpsManager_sync st =
     (if list_all ready (mOperations st) then Some (st\<lparr>mOperations := []\<rparr>) else None)"

definition verifyWriteParams :: "config \<Rightarrow> nat \<Rightarrow> nat \<Rightarrow> int" where
  "verifyWriteParams cfg offset len =
     (let ret = 0;
          ret = (if len = 0 then - EINVAL else ret);
          ret = (if u64 (offset + len) > pool_size cfg then - EFBIG else ret)
      in ret)"

definition setSizeIfBigger :: "pool \<Rightarrow> nat \<Rightarrow> int \<times> pool" where
  "setSizeIfBigger p sz =
     (let sizeHex = fileSizeToHex sz
      in if bl_less (stored_size_attr p) sizeHex then (0, op_omap_set p sizeHex)
         else (- ECANCELED, p))"


definition getLastStripeIndexAndSize :: "config \<Rightarrow> pool \<Rightarrow> int \<times> nat option" where
  \<comment> \<open>the return value, and what is stored through \<open>size\<close> when the call gets that far\<close>
  "getLastStripeIndexAndSize cfg p =
     (case p 0 of
        None \<Rightarrow> (- ENOENT, None)
      | Some ob \<Rightarrow>
          (let fileSize = (case omap_file_size ob of
                             None \<Rightarrow> 0
                           | Some s \<Rightarrow> ssize_of (strtoul16 s));
               sz = size_of_int fileSize
           in (if fileSize > 0
               then ssize_of (nat (fileSize - 1) div stripe_size cfg)
               else fileSize,
               Some sz)))"

definition getLastStripeIndex :: "config \<Rightarrow> pool \<Rightarrow> int" where
  "getLastStripeIndex cfg p = fst (getLastStripeIndexAndSize cfg p)"

definition getSize :: "config \<Rightarrow> pool \<Rightarrow> nat" where
  "getSize cfg p = (case snd (getLastStripeIndexAndSize cfg p) of None \<Rightarrow> 0 | Some s \<Rightarrow> s)"

fun realWrite_loop ::
  "config \<Rightarrow> string \<Rightarrow> nat \<Rightarrow> nat \<Rightarrow> nat \<Rightarrow> nat \<Rightarrow> nat \<Rightarrow> nat \<Rightarrow> pool \<Rightarrow> pool" where
  \<comment> \<open>\<open>n\<close> iterations are left, \<open>i\<close> is the loop counter\<close>
  "realWrite_loop cfg buff blen firstStripe 0 i currentOffset bytesToWrite p = p"
| "realWrite_loop cfg buff blen firstStripe (Suc n) i currentOffset bytesToWrite p =
     (let len = min (stripe_size cfg - currentOffset) bytesToWrite;
          contentsStr = take len (drop (blen - bytesToWrite) buff);
          contents = contentsStr @
            (if has_alignment cfg then zeros (stripe_size cfg - len) else [])
      in realWrite_loop cfg buff blen firstStripe n (Suc i) 0 (bytesToWrite - len)
           (op_write p (firstStripe + i) currentOffset contents))"

definition realWrite_stripes ::
  "config \<Rightarrow> fileio \<Rightarrow> string \<Rightarrow> nat \<Rightarrow> nat \<Rightarrow> nat \<Rightarrow> int \<times> fileio" where
  \<comment> \<open>\<open>realWrite\<close> from the mtime update on\<close>
  "realWrite_stripes cfg st buff offset blen opId =
     (let currentOffset = offset mod stripe_size cfg;
          firstStripe = offset div stripe_size cfg;
          lastStripe = u64_sub (u64 (offset + blen)) 1 div stripe_size cfg;
          totalStripes = u64 (u64_sub lastStripe firstStripe + 1);
          totalSize = u64 (offset + blen);
          p1 = snd (setSizeIfBigger (objs st) totalSize);
          p2 = realWrite_loop cfg buff blen firstStripe totalStripes 0 currentOffset blen p1
      in (0, setReady (st\<lparr>objs := p2\<rparr>) opId))"

definition realWrite ::
  "config \<Rightarrow> fileio \<Rightarrow> string \<Rightarrow> nat \<Rightarrow> nat \<Rightarrow> nat \<Rightarrow> int \<times> fileio" where
  "realWrite cfg st buff offset blen opId =
     (case mInlineBuffer st of
        None \<Rightarrow> realWrite_stripes cfg st buff offset blen opId
      | Some ib \<Rightarrow>
          if capacity ib > 0 then
            (let (opResult, inlineContentsSize, ib') =
                   (if offset < capacity ib
                    then (let (r, ib') = ib_write ib buff offset blen
                          in (r, size_of_int r, ib'))
                    else (let (r, ib') = ib_fillRemaining ib in (r, 0, ib')));
                 st1 = st\<lparr>mInlineBuffer := Some ib'\<rparr>
             in if opResult < 0 then (0, setReady st1 opId)
                else (let offset' = u64 (offset + inlineContentsSize);
                          buff' = drop inlineContentsSize buff;
                          blen' = u64_sub blen inlineContentsSize
                      in if blen' = 0 then (0, setReady st1 opId)
                         else realWrite_stripes cfg st1 buff' offset' blen' opId))
          else realWrite_stripes cfg st buff offset blen opId)"

definition writeSync :: "config \<Rightarrow> fileio \<Rightarrow> string \<Rightarrow> nat \<Rightarrow> nat \<Rightarrow> int \<times> fileio" where
  "writeSync cfg st buff offset blen =
     (let opId = uuid_next st;
          st1 = addOperation (st\<lparr>uuid_next := Suc opId\<rparr>) opId;
          ret = verifyWriteParams cfg offset blen
      in if ret \<noteq> 0 then (ret, st1)
         else realWrite cfg st1 buff offset blen opId)"

definition write_async :: "config \<Rightarrow> fileio \<Rightarrow> string \<Rightarrow> nat \<Rightarrow> nat \<Rightarrow> int \<times> fileio" where
  \<comment> \<open>the task handed to the executor is queued in \<open>posted\<close>\<close>
  "write_async cfg st buff offset blen =
     (let ret = verifyWriteParams cfg offset blen
      in if ret \<noteq> 0 then (ret, st)
         else (let opId = uuid_next st;
                   st1 = addOperation (st\<lparr>uuid_next := Suc opId\<rparr>) opId
               in (0, st1\<lparr>posted := posted st1 @
                      [\<lparr>t_buff = buff, t_offset = offset, t_blen = blen, t_op = opId\<rparr>]\<rparr>)))"

definition run_posted :: "config \<Rightarrow> fileio \<Rightarrow> fileio" where
  \<comment> \<open>the executor runs the oldest queued task\<close>
  "run_posted cfg st =
     (case posted st of
        [] \<Rightarrow> st
      | t # ts \<Rightarrow> snd (realWrite cfg (st\<lparr>posted := ts\<rparr>) (t_buff t) (t_offset t) (t_blen t) (t_op t)))"

subsection \<open>Reading\<close>

definition memcpy_to :: "string \<Rightarrow> nat \<Rightarrow> string \<Rightarrow> string" where
  \<comment> \<open>\<open>memcpy(buff + pos, bs, |bs|)\<close> into a buffer that holds at least \<open>pos + |bs|\<close> bytes\<close>
  "memcpy_to buff pos bs = take pos buff @ bs @ drop (pos + length bs) buff"

definition c_str_at :: "string \<Rightarrow> (nat \<Rightarrow> char) \<Rightarrow> nat \<Rightarrow> char" where
  \<comment> \<open>the byte at \<open>s.c_str() + i\<close>: the string, its terminator, and then whatever the
      memory behind it holds (\<open>junk\<close>), which the program does not determine\<close>
  "c_str_at s junk i =
     (if i < length s then s ! i
      else if i = length s then CHR 0x00
      else junk (i - length s - 1))"

definition read_inline ::
  "(nat \<Rightarrow> char) \<Rightarrow> inline_buffer \<Rightarrow> string \<Rightarrow> nat \<Rightarrow> nat \<Rightarrow> nat \<times> string \<times> nat \<times> nat" where
  \<comment> \<open>the block of \<open>read\<close> guarded by \<open>offset < capacity\<close>: the bytes copied, the
      buffer, and the advanced offset and length\<close>
  "read_inline junk ib buff offset blen =
     (let contentsStr = contents ib;
          ret = min blen (length contentsStr);
          buff1 = (if ret > 0
                   then memcpy_to buff 0 (map (c_str_at contentsStr junk) [offset ..< offset + ret])
                   else buff)
      in (ret, buff1, u64 (offset + ret), blen - ret))"

text \<open>
  The loop of \<open>read\<close>. The body is the source's, with its two exits written as values:
  \<open>failed\<close> is the \<open>return ret\<close> inside the zero-fill block, and the test
  \<open>bytesToRead < mStripeSize\<close> is the \<open>break\<close>. \<open>buff2\<close> is the buffer after the
  \<open>memset\<close>, which is reached only when \<open>(size_t) ret < length\<close> holds.
\<close>

partial_function (option) read_loop ::
  "config \<Rightarrow> pool \<Rightarrow> nat \<Rightarrow> nat \<Rightarrow> nat \<Rightarrow> nat \<Rightarrow> nat \<Rightarrow> nat \<Rightarrow> string \<Rightarrow> (int \<times> string) option" where
  \<comment> \<open>\<open>pos\<close> is how far \<open>buff\<close> has been advanced; \<open>None\<close>: the loop does not end\<close>
  "read_loop cfg p offset blen currentOffset bytesToRead bytesRead pos buff =
     (if bytesToRead > 0 then
        (let stripe = u64 (blen - bytesToRead + offset) div stripe_size cfg;
             len = min (stripe_size cfg - currentOffset) bytesToRead;
             rd = ioctx_read p stripe len currentOffset;
             ret = fst rd;
             readBuff = snd rd;
             buff1 = (if ret > 0 then memcpy_to buff pos readBuff else buff);
             failed = (size_of_int ret < len \<and> ret < 0 \<and> ret \<noteq> - ENOENT);
             buff2 = (if size_of_int ret < len
                      then (let ret' = (if ret < 0 then 0 else ret)
                            in memcpy_to buff1 (pos + nat ret') (zeros (len - nat ret')))
                      else buff1)
         in if failed then Some (ret, buff1)
            else if bytesToRead < stripe_size cfg
            then Some (ssize_of (bytesRead + len), buff2)
            else read_loop cfg p offset blen 0 (bytesToRead - len) (bytesRead + len)
                   (pos + len) buff2)
      else Some (ssize_of bytesRead, buff))"

definition read_stripes ::
  "config \<Rightarrow> pool \<Rightarrow> string \<Rightarrow> nat \<Rightarrow> nat \<Rightarrow> nat \<Rightarrow> (int \<times> string) option" where
  \<comment> \<open>\<open>read\<close> from the fetch of the file size on; \<open>pos\<close> bytes were copied before\<close>
  "read_stripes cfg p buff pos offset blen =
     (let r = getLastStripeIndexAndSize cfg p;
          fileSize = (case snd r of None \<Rightarrow> 0 | Some s \<Rightarrow> s)
      in if fst r < 0 then Some (fst r, buff)
         else if u64 (offset + blen) > fileSize then Some (- EOVERFLOW, buff)
         else read_loop cfg p offset blen (offset mod stripe_size cfg) blen pos pos buff)"

definition read_prefix ::
  "(nat \<Rightarrow> char) \<Rightarrow> fileio \<Rightarrow> string \<Rightarrow> nat \<Rightarrow> nat \<Rightarrow> (nat \<times> string \<times> nat \<times> nat) option" where
  \<comment> \<open>\<open>None\<close>: there is no inline buffer, or the offset lies at or behind its capacity\<close>
  "read_prefix junk st buff offset blen =
     (case mInlineBuffer st of
        None \<Rightarrow> None
      | Some ib \<Rightarrow> if offset < capacity ib
                   then Some (read_inline junk ib buff offset blen)
                   else None)"

definition read ::
  "config \<Rightarrow> (nat \<Rightarrow> char) \<Rightarrow> fileio \<Rightarrow> string \<Rightarrow> nat \<Rightarrow> nat \<Rightarrow> (int \<times> string \<times> fileio) option" where
  \<comment> \<open>the return value, the caller's buffer and the engine; \<open>None\<close>: the call does not return\<close>
  "read cfg junk st buff offset blen =
     (case OpsManager_sync st of
        None \<Rightarrow> None
      | Some st1 \<Rightarrow>
          if blen = 0 then Some (- EINVAL, buff, st1)
          else
            (case read_prefix junk st1 buff offset blen of
               None \<Rightarrow>
                 map_option (\<lambda>(r, b). (r, b, st1))
                   (read_stripes cfg (objs st1) buff 0 offset blen)
             | Some (ret, buff1, offset1, blen1) \<Rightarrow>
                 if blen1 = 0 then Some (int ret, buff1, st1)
                 else map_option (\<lambda>(r, b). (r, b, st1))
                        (read_stripes cfg (objs st1) buff1 ret offset1 blen1)))"

subsection \<open>Removing and truncating\<close>

fun remove_loop :: "nat \<Rightarrow> nat \<Rightarrow> pool \<Rightarrow> pool" where
  \<comment> \<open>\<open>n\<close> iterations are left, \<open>i\<close> is the loop counter\<close>
  "remove_loop 0 i p = p"
| "remove_loop (Suc n) i p = remove_loop n (Suc i) (op_remove p i)"

definition remove_io :: "config \<Rightarrow> fileio \<Rightarrow> (int \<times> fileio) option" where
  \<comment> \<open>\<open>FileIO::remove\<close>\<close>
  "remove_io cfg st =
     (let opId = uuid_next st
      in case OpsManager_sync (st\<lparr>uuid_next := Suc opId\<rparr>) of
           None \<Rightarrow> None
         | Some st1 \<Rightarrow>
             (let lastStripe = getLastStripeIndex cfg (objs st1)
              in if lastStripe < 0 then Some (lastStripe, st1)
                 else (let st2 = addOperation st1 opId;
                           p = remove_loop (Suc (size_of_int lastStripe)) 0 (objs st2)
                       in Some (0, setReady (st2\<lparr>objs := p\<rparr>) opId))))"

definition truncate_last :: "config \<Rightarrow> nat \<Rightarrow> nat \<Rightarrow> pool \<Rightarrow> pool" where
  \<comment> \<open>the request for the new last stripe (\<open>i == 0\<close>), which is not removed\<close>
  "truncate_last cfg fileStripe newLastStripeSize p =
     (if has_alignment cfg
      then op_write_assert_exists p fileStripe newLastStripeSize
             (zeros (stripe_size cfg - newLastStripeSize))
      else op_truncate_assert_exists p fileStripe newLastStripeSize)"




subsection \<open>Sequences of writes\<close>

datatype write_call =
    WriteSync string nat nat
  | WriteAsync string nat nat
  | RunPosted

fun do_write :: "config \<Rightarrow> fileio \<Rightarrow> write_call \<Rightarrow> fileio" where
  "do_write cfg st (WriteSync buff offset blen) = snd (writeSync cfg st buff offset blen)"
| "do_write cfg st (WriteAsync buff offset blen) = snd (write_async cfg st buff offset blen)"
| "do_write cfg st RunPosted = run_posted cfg st"

definition do_writes :: "config \<Rightarrow> fileio \<Rightarrow> write_call list \<Rightarrow> fileio" where
  "do_writes cfg st ws = foldl (do_write cfg) st ws"

definition size_attr_wf :: "pool \<Rightarrow> bool" where
  \<comment> \<open>the size entry is missing or is one that \<open>fileSizeToHex\<close> produces\<close>
  "size_attr_wf p =
     (stored_size_attr p = [] \<or>
      stored_size_attr p = fileSizeToHex (strtoul16 (stored_size_attr p)))"

text \<open>
  The inline block of \<open>realWrite\<close> leaves nothing of the write for the stripes: there is
  an inline buffer of capacity above 0 and the range of the write lies within that
  capacity. These are the writes for which \<open>blen == 0\<close> holds after the block, so that
  \<open>realWrite\<close> returns there.
\<close>

definition inline_takes_all :: "fileio \<Rightarrow> nat \<Rightarrow> nat \<Rightarrow> bool" where
  "inline_takes_all st offset blen =
     (case mInlineBuffer st of
        None \<Rightarrow> False
      | Some ib \<Rightarrow> 0 < capacity ib \<and> blen \<le> capacity ib - offset)"

subsection \<open>Well-formed files\<close>

text \<open>
  What the operations of the engine maintain on the objects of a file: the recorded
  size does not exceed the size of the pool, and an object exists only together with
  the base object and only up to the last stripe of the recorded size,
  \<open>(fileSize - 1) / stripeSize\<close> as \<open>getLastStripeIndexAndSize\<close> computes it.
\<close>

definition file_inv :: "config \<Rightarrow> pool \<Rightarrow> bool" where
  "file_inv cfg p =
     (getSize cfg p \<le> pool_size cfg \<and>
      (\<forall>i. p i \<noteq> None \<longrightarrow>
           p 0 \<noteq> None \<and> i \<le> (getSize cfg p - 1) div stripe_size cfg))"

text \<open>
  Stripe \<open>j\<close> of the pool holds the bytes of \<open>B\<close> that belong to it: its object exists
  and starts with them.
\<close>

definition stripe_holds :: "config \<Rightarrow> string \<Rightarrow> pool \<Rightarrow> nat \<Rightarrow> bool" where
  "stripe_holds cfg B p j =
     (\<exists>ob. p j = Some ob \<and>
           take (min (stripe_size cfg) (length B - j * stripe_size cfg)) (data ob)
             = take (stripe_size cfg) (drop (j * stripe_size cfg) B))"

text \<open>The configuration of the concrete scenarios: stripes of 8 bytes, no alignment.\<close>

definition cfg8 :: config where
  "cfg8 = \<lparr>stripe_size = 8, pool_size = 1000, has_alignment = False\<rparr>"

definition sized_file :: "nat \<Rightarrow> fileio" where
  \<comment> \<open>an engine over a file whose base object records the size \<open>n\<close> and holds no bytes\<close>
  "sized_file n = fresh\<lparr>objs := [0 \<mapsto> \<lparr>data = [], omap_file_size = Some (fileSizeToHex n)\<rparr>]\<rparr>"

definition inline16 :: fileio where
  \<comment> \<open>a fresh engine bound to an empty inline buffer of 16 bytes\<close>
  "inline16 = fresh\<lparr>mInlineBuffer := Some \<lparr>capacity = 16, contents = []\<rparr>\<rparr>"

definition inline4 :: fileio where
  \<comment> \<open>a fresh engine bound to an empty inline buffer of 4 bytes\<close>
  "inline4 = fresh\<lparr>mInlineBuffer := Some \<lparr>capacity = 4, contents = []\<rparr>\<rparr>"

definition inline4_queued :: fileio where
  \<comment> \<open>that engine after an asynchronous write of 10 bytes, its task still queued\<close>
  "inline4_queued = snd (write_async cfg8 inline4 ''ABCDEFGHIJ'' 0 10)"

section \<open>Properties of the size attribute\<close>

lemma size_of_ssize: "size_of_int (ssize_of n) = u64 n"
  by (auto simp: size_of_int_def ssize_of_def u64_def nat_mod_distrib zmod_int)

lemma strtoul16_bound: "strtoul16 s < 2 ^ 64"
  by (simp add: strtoul16_def)

lemma getSize_eq: "getSize cfg p = strtoul16 (stored_size_attr p)"
proof (cases "p 0")
  case None
  then show ?thesis
    by (simp add: getSize_def getLastStripeIndexAndSize_def stored_size_attr_def strtoul16_def)
next
  case (Some ob)
  show ?thesis
  proof (cases "omap_file_size ob")
    case None
    with Some show ?thesis
      by (simp add: getSize_def getLastStripeIndexAndSize_def stored_size_attr_def strtoul16_def
          size_of_int_def Let_def)
  next
    case (Some s)
    have "u64 (strtoul16 s) = strtoul16 s"
      using strtoul16_bound [of s] by (simp add: u64_def)
    with Some \<open>p 0 = Some ob\<close> show ?thesis
      by (simp add: getSize_def getLastStripeIndexAndSize_def stored_size_attr_def
          size_of_ssize Let_def)
  qed
qed

lemma hexdigit_code:
  assumes "d < 16"
  shows "(of_char (hexdigit d) :: nat) = (if d < 10 then 48 + d else 87 + d)"
proof -
  from assms have "d = 0 \<or> d = 1 \<or> d = 2 \<or> d = 3 \<or> d = 4 \<or> d = 5 \<or> d = 6 \<or> d = 7
      \<or> d = 8 \<or> d = 9 \<or> d = 10 \<or> d = 11 \<or> d = 12 \<or> d = 13 \<or> d = 14 \<or> d = 15"
    by arith
  then show ?thesis
    by (elim disjE) (simp_all add: hexdigit_def)
qed

lemma hexval_hexdigit: "d < 16 \<Longrightarrow> hexval (hexdigit d) = Some d"
  by (auto simp: hexval_def hexdigit_code Let_def)

lemma length_hex_fixed [simp]: "length (hex_fixed w n) = w"
  by (induction w arbitrary: n) simp_all

lemma strtoul_acc_append:
  "list_all (\<lambda>c. hexval c \<noteq> None) xs \<Longrightarrow>
   strtoul_acc a (xs @ ys) = strtoul_acc (strtoul_acc a xs) ys"
  by (induction xs arbitrary: a) (auto split: option.splits)

lemma hex_fixed_all_hex: "list_all (\<lambda>c. hexval c \<noteq> None) (hex_fixed w n)"
  by (induction w arbitrary: n) (simp_all add: hexval_hexdigit)

lemma strtoul_acc_hex_fixed: "strtoul_acc a (hex_fixed w n) = a * 16 ^ w + n mod 16 ^ w"
proof (induction w arbitrary: a n)
  case 0
  then show ?case by simp
next
  case (Suc w)
  have "strtoul_acc a (hex_fixed (Suc w) n)
      = 16 * (a * 16 ^ w + (n div 16) mod 16 ^ w) + n mod 16"
    by (simp add: strtoul_acc_append [OF hex_fixed_all_hex] Suc.IH hexval_hexdigit)
  also have "\<dots> = a * 16 ^ Suc w + n mod 16 ^ Suc w"
    by (simp add: mod_mult2_eq algebra_simps)
  finally show ?case .
qed

lemma strtoul16_fileSizeToHex: "strtoul16 (fileSizeToHex n) = u64 n"
proof -
  have "(2::nat) ^ 64 = 16 ^ 16" by simp
  then have "strtoul_acc 0 (hex_fixed 16 n) = n mod 2 ^ 64"
    by (simp add: strtoul_acc_hex_fixed)
  moreover have "n mod 2 ^ 64 < (2::nat) ^ 64" by simp
  ultimately show ?thesis
    by (simp add: strtoul16_def fileSizeToHex_def u64_def)
qed

lemma bl_less_snoc:
  "length xs = length ys \<Longrightarrow>
   bl_less (xs @ [a]) (ys @ [b]) =
     (bl_less xs ys \<or> (xs = ys \<and> (of_char a :: nat) < of_char b))"
proof (induction xs ys rule: list_induct2)
  case Nil
  then show ?case by simp
next
  case (Cons x xs y ys)
  then show ?case by (auto simp: of_char_eq_iff)
qed

lemma hexdigit_less:
  "d < 16 \<Longrightarrow> e < 16 \<Longrightarrow> ((of_char (hexdigit d) :: nat) < of_char (hexdigit e)) = (d < e)"
  by (auto simp: hexdigit_code)

lemma hexdigit_inj: "d < 16 \<Longrightarrow> e < 16 \<Longrightarrow> (hexdigit d = hexdigit e) = (d = e)"
  using hexval_hexdigit by (metis option.inject)

lemma hex_fixed_eq_iff: "(hex_fixed w a = hex_fixed w b) = (a mod 16 ^ w = b mod 16 ^ w)"
proof (induction w arbitrary: a b)
  case 0
  then show ?case by simp
next
  case (Suc w)
  have "(hex_fixed (Suc w) a = hex_fixed (Suc w) b)
      = ((a div 16) mod 16 ^ w = (b div 16) mod 16 ^ w \<and> a mod 16 = b mod 16)"
    by (simp add: Suc.IH hexdigit_inj)
  also have "\<dots> = (a mod 16 ^ Suc w = b mod 16 ^ Suc w)"
  proof -
    have a: "a mod 16 ^ Suc w = 16 * ((a div 16) mod 16 ^ w) + a mod 16"
      by (simp add: mod_mult2_eq)
    have b: "b mod 16 ^ Suc w = 16 * ((b div 16) mod 16 ^ w) + b mod 16"
      by (simp add: mod_mult2_eq)
    define qa ra qb rb where "qa = (a div 16) mod 16 ^ w" and "ra = a mod 16"
      and "qb = (b div 16) mod 16 ^ w" and "rb = b mod 16"
    have "ra < 16" "rb < 16" by (simp_all add: ra_def rb_def)
    then show ?thesis unfolding a b qa_def [symmetric] ra_def [symmetric]
        qb_def [symmetric] rb_def [symmetric] by arith
  qed
  finally show ?case .
qed

lemma bl_less_hex_fixed: "bl_less (hex_fixed w a) (hex_fixed w b) = (a mod 16 ^ w < b mod 16 ^ w)"
proof (induction w arbitrary: a b)
  case 0
  then show ?case by simp
next
  case (Suc w)
  have "bl_less (hex_fixed (Suc w) a) (hex_fixed (Suc w) b)
      = ((a div 16) mod 16 ^ w < (b div 16) mod 16 ^ w
         \<or> ((a div 16) mod 16 ^ w = (b div 16) mod 16 ^ w \<and> a mod 16 < b mod 16))"
    by (simp add: bl_less_snoc Suc.IH hex_fixed_eq_iff hexdigit_less)
  also have "\<dots> = (a mod 16 ^ Suc w < b mod 16 ^ Suc w)"
  proof -
    have a: "a mod 16 ^ Suc w = 16 * ((a div 16) mod 16 ^ w) + a mod 16"
      by (simp add: mod_mult2_eq)
    have b: "b mod 16 ^ Suc w = 16 * ((b div 16) mod 16 ^ w) + b mod 16"
      by (simp add: mod_mult2_eq)
    define qa ra qb rb where "qa = (a div 16) mod 16 ^ w" and "ra = a mod 16"
      and "qb = (b div 16) mod 16 ^ w" and "rb = b mod 16"
    have "ra < 16" "rb < 16" by (simp_all add: ra_def rb_def)
    then show ?thesis unfolding a b qa_def [symmetric] ra_def [symmetric]
        qb_def [symmetric] rb_def [symmetric] by arith
  qed
  finally show ?case .
qed

lemma bl_less_fileSizeToHex: "bl_less (fileSizeToHex a) (fileSizeToHex b) = (u64 a < u64 b)"
proof -
  have "(2::nat) ^ 64 = 16 ^ 16" by simp
  then show ?thesis
    by (simp only: fileSizeToHex_def u64_def bl_less_hex_fixed)
qed

lemma bl_less_Nil_fileSizeToHex: "bl_less [] (fileSizeToHex n)"
proof -
  have "length (fileSizeToHex n) = 16" by (simp add: fileSizeToHex_def)
  then show ?thesis by (cases "fileSizeToHex n") simp_all
qed

lemma stored_size_attr_op_write [simp]:
  "stored_size_attr (op_write p i off bs) = stored_size_attr p"
  by (auto simp: stored_size_attr_def op_write_def split: option.splits)

lemma stored_size_attr_realWrite_loop [simp]:
  "stored_size_attr (realWrite_loop cfg buff blen fs n i cur btw p) = stored_size_attr p"
  by (induction n arbitrary: i cur btw p) (simp_all add: Let_def)

lemma u64_u64 [simp]: "u64 (u64 n) = u64 n"
  by (simp add: u64_def)

lemma u64_add_left [simp]: "u64 (u64 a + b) = u64 (a + b)"
  by (simp add: u64_def mod_add_left_eq)

lemma fileSizeToHex_u64 [simp]: "fileSizeToHex (u64 n) = fileSizeToHex n"
proof -
  have "(2::nat) ^ 64 = 16 ^ 16" by simp
  then show ?thesis
    by (simp add: fileSizeToHex_def u64_def hex_fixed_eq_iff)
qed

lemma stored_size_attr_op_omap_set [simp]: "stored_size_attr (op_omap_set p s) = s"
  by (simp add: stored_size_attr_def op_omap_set_def split: option.splits)

lemma realWrite_stripes_attr:
  "stored_size_attr (objs (snd (realWrite_stripes cfg st buff offset blen opId)))
   = stored_size_attr (snd (setSizeIfBigger (objs st) (u64 (offset + blen))))"
  by (simp add: realWrite_stripes_def Let_def setReady_def)

lemma realWrite_stripes_ret [simp]: "fst (realWrite_stripes cfg st buff offset blen opId) = 0"
  by (simp add: realWrite_stripes_def Let_def)

lemma realWrite_ret [simp]: "fst (realWrite cfg st buff offset blen opId) = 0"
  by (simp add: realWrite_def Let_def split: option.splits prod.splits)

lemma ib_write_count: "fst (ib_write ib buff offset blen) = int (min blen (capacity ib - offset))"
  by (simp add: ib_write_def Let_def)

text \<open>What realWrite proposes to the store, when it gets that far.\<close>

lemma realWrite_attr_cases:
  "stored_size_attr (objs (snd (realWrite cfg st buff offset blen opId))) = stored_size_attr (objs st)
   \<or> stored_size_attr (objs (snd (realWrite cfg st buff offset blen opId)))
       = stored_size_attr (snd (setSizeIfBigger (objs st) (u64 (offset + blen))))"
proof (cases "mInlineBuffer st")
  case None
  then show ?thesis by (simp add: realWrite_def realWrite_stripes_attr)
next
  case (Some ib)
  show ?thesis
  proof (cases "capacity ib > 0 \<and> offset < capacity ib")
    case True
    define n where "n = min blen (capacity ib - offset)"
    have n: "n \<le> blen" by (simp add: n_def)
    have sz: "size_of_int (int n) = u64 n"
      by (simp add: size_of_int_def u64_def nat_mod_distrib zmod_int)
    have le: "u64 n \<le> blen" using n by (simp add: u64_def)
    have "offset + u64 n + (blen - u64 n) = offset + blen"
      using le by arith
    then have "u64 (u64 (offset + u64 n) + (blen - u64 n)) = u64 (offset + blen)"
      by (simp only: u64_add_left)
    with True Some le show ?thesis
      by (simp add: realWrite_def ib_write_def Let_def n_def [symmetric] sz u64_sub_def
          realWrite_stripes_attr setReady_def)
  next
    case False
    with Some show ?thesis
      by (auto simp: realWrite_def ib_fillRemaining_def Let_def size_of_int_def u64_sub_def
          realWrite_stripes_attr setReady_def)
  qed
qed

lemma setSizeIfBigger_canceled:
  "fst (setSizeIfBigger p sz) = - ECANCELED \<Longrightarrow> snd (setSizeIfBigger p sz) = p"
  by (simp add: setSizeIfBigger_def Let_def ECANCELED_def split: if_splits)


lemma size_attr_wf_hex [simp]: "size_attr_wf (op_omap_set p (fileSizeToHex n))"
  by (simp add: size_attr_wf_def strtoul16_fileSizeToHex)

lemma getSize_setSizeIfBigger:
  assumes "size_attr_wf p"
  shows "getSize cfg (snd (setSizeIfBigger p sz)) = max (getSize cfg p) (u64 sz)"
proof (cases "stored_size_attr p = []")
  case True
  have "strtoul16 [] = 0" by (simp add: strtoul16_def)
  with True show ?thesis
    by (simp add: setSizeIfBigger_def getSize_eq bl_less_Nil_fileSizeToHex
        strtoul16_fileSizeToHex)
next
  case False
  with assms have eq: "stored_size_attr p = fileSizeToHex (strtoul16 (stored_size_attr p))"
    by (simp add: size_attr_wf_def)
  have b: "u64 (strtoul16 (stored_size_attr p)) = strtoul16 (stored_size_attr p)"
    using strtoul16_bound [of "stored_size_attr p"] by (simp add: u64_def)
  have "bl_less (stored_size_attr p) (fileSizeToHex sz)
        = (strtoul16 (stored_size_attr p) < u64 sz)"
    by (subst eq) (simp add: bl_less_fileSizeToHex b)
  then show ?thesis
    by (auto simp: setSizeIfBigger_def getSize_eq strtoul16_fileSizeToHex)
qed

lemma size_attr_wf_setSizeIfBigger:
  "size_attr_wf p \<Longrightarrow> size_attr_wf (snd (setSizeIfBigger p sz))"
  by (simp add: setSizeIfBigger_def Let_def)

lemma size_attr_wf_cong:
  "stored_size_attr p = stored_size_attr q \<Longrightarrow> size_attr_wf p = size_attr_wf q"
  by (simp add: size_attr_wf_def)

lemma realWrite_size:
  assumes "size_attr_wf (objs st)"
  shows "size_attr_wf (objs (snd (realWrite cfg st buff offset blen opId)))
       \<and> getSize cfg (objs st) \<le> getSize cfg (objs (snd (realWrite cfg st buff offset blen opId)))"
proof -
  let ?p' = "objs (snd (realWrite cfg st buff offset blen opId))"
  let ?q = "snd (setSizeIfBigger (objs st) (u64 (offset + blen)))"
  from realWrite_attr_cases [of cfg st buff offset blen opId]
  consider "stored_size_attr ?p' = stored_size_attr (objs st)"
    | "stored_size_attr ?p' = stored_size_attr ?q" by blast
  then show ?thesis
  proof cases
    case 1
    with assms show ?thesis
      by (simp add: getSize_eq size_attr_wf_cong [OF 1])
  next
    case 2
    have "getSize cfg ?p' = getSize cfg ?q" by (simp add: getSize_eq 2)
    with assms show ?thesis
      by (simp add: getSize_setSizeIfBigger size_attr_wf_cong [OF 2] size_attr_wf_setSizeIfBigger)
  qed
qed

text \<open>The writes that reach the stripes propose their end as the size; the others leave the pool alone.\<close>

lemma realWrite_attr_reached:
  assumes "\<not> inline_takes_all st offset blen"
  shows "stored_size_attr (objs (snd (realWrite cfg st buff offset blen opId)))
       = stored_size_attr (snd (setSizeIfBigger (objs st) (u64 (offset + blen))))"
proof (cases "mInlineBuffer st")
  case None
  then show ?thesis by (simp add: realWrite_def realWrite_stripes_attr)
next
  case (Some ib)
  show ?thesis
  proof (cases "capacity ib > 0 \<and> offset < capacity ib")
    case True
    define n where "n = min blen (capacity ib - offset)"
    have lt: "n < blen" using assms Some True by (simp add: inline_takes_all_def n_def)
    have sz: "size_of_int (int n) = u64 n"
      by (simp add: size_of_int_def u64_def nat_mod_distrib zmod_int)
    have "u64 n \<le> n" by (simp add: u64_def)
    with lt have le: "u64 n < blen" by simp
    have "offset + u64 n + (blen - u64 n) = offset + blen"
      using le by arith
    then have "u64 (u64 (offset + u64 n) + (blen - u64 n)) = u64 (offset + blen)"
      by (simp only: u64_add_left)
    with True Some le show ?thesis
      by (simp add: realWrite_def ib_write_def Let_def n_def [symmetric] sz u64_sub_def
          realWrite_stripes_attr setReady_def)
  next
    case False
    with Some assms show ?thesis
      by (auto simp: realWrite_def ib_fillRemaining_def Let_def size_of_int_def u64_sub_def
          realWrite_stripes_attr setReady_def inline_takes_all_def)
  qed
qed

lemma realWrite_size_reached:
  assumes "size_attr_wf (objs st)" and "\<not> inline_takes_all st offset blen"
  shows "u64 (offset + blen) \<le> getSize cfg (objs (snd (realWrite cfg st buff offset blen opId)))"
proof -
  have "getSize cfg (objs (snd (realWrite cfg st buff offset blen opId)))
        = getSize cfg (snd (setSizeIfBigger (objs st) (u64 (offset + blen))))"
    by (simp add: getSize_eq realWrite_attr_reached [OF assms(2)])
  with assms(1) show ?thesis by (simp add: getSize_setSizeIfBigger)
qed

lemma realWrite_taken:
  assumes "inline_takes_all st offset blen" and "blen < 2 ^ 64"
  shows "objs (snd (realWrite cfg st buff offset blen opId)) = objs st"
proof -
  from assms(1) obtain ib where ib: "mInlineBuffer st = Some ib"
    and c: "0 < capacity ib" and b: "blen \<le> capacity ib - offset"
    by (auto simp: inline_takes_all_def split: option.splits)
  have m: "min blen (capacity ib - offset) = blen" using b by simp
  have sz: "size_of_int (int blen) = blen"
    using assms(2) by (simp add: size_of_int_def nat_mod_distrib zmod_int)
  show ?thesis
  proof (cases "offset < capacity ib")
    case True
    with ib show ?thesis
      by (simp add: realWrite_def ib_write_def Let_def m sz u64_sub_def setReady_def)
  next
    case False
    with b have "blen = 0" by simp
    with ib c False show ?thesis
      by (simp add: realWrite_def ib_fillRemaining_def Let_def size_of_int_def u64_sub_def
          setReady_def)
  qed
qed

lemma objs_addOperation [simp]: "objs (addOperation st i) = objs st"
  by (simp add: addOperation_def)

lemma do_write_size:
  assumes "size_attr_wf (objs st)"
  shows "size_attr_wf (objs (do_write cfg st w))
       \<and> getSize cfg (objs st) \<le> getSize cfg (objs (do_write cfg st w))"
proof (cases w)
  case (WriteSync buff offset blen)
  show ?thesis
  proof (cases "verifyWriteParams cfg offset blen = 0")
    case True
    then show ?thesis
      using realWrite_size [of "addOperation (st\<lparr>uuid_next := Suc (uuid_next st)\<rparr>) (uuid_next st)"
          cfg buff offset blen "uuid_next st"] assms
      by (simp add: WriteSync writeSync_def Let_def)
  next
    case False
    with assms show ?thesis by (simp add: WriteSync writeSync_def Let_def)
  qed
next
  case (WriteAsync buff offset blen)
  with assms show ?thesis by (simp add: write_async_def Let_def)
next
  case RunPosted
  show ?thesis
  proof (cases "posted st")
    case Nil
    with assms show ?thesis by (simp add: RunPosted run_posted_def)
  next
    case (Cons t ts)
    then show ?thesis
      using realWrite_size [of "st\<lparr>posted := ts\<rparr>" cfg "t_buff t" "t_offset t" "t_blen t" "t_op t"]
        assms
      by (simp add: RunPosted run_posted_def)
  qed
qed

lemma do_writes_size:
  "size_attr_wf (objs st) \<Longrightarrow>
   size_attr_wf (objs (do_writes cfg st ws))
   \<and> getSize cfg (objs st) \<le> getSize cfg (objs (do_writes cfg st ws))"
proof (induction ws arbitrary: st)
  case Nil
  then show ?case by (simp add: do_writes_def)
next
  case (Cons w ws)
  from do_write_size [OF Cons.prems, of cfg w]
  have wf: "size_attr_wf (objs (do_write cfg st w))"
    and le: "getSize cfg (objs st) \<le> getSize cfg (objs (do_write cfg st w))" by simp_all
  from Cons.IH [OF wf] le show ?case
    by (simp add: do_writes_def)
qed


section \<open>Validation of the write parameters\<close>

text \<open>
  Claim C10. A write whose parameters break both rules at once, a length of zero and an
  end beyond the size of the pool, is answered with \<open>-EFBIG\<close> and not with \<open>-EINVAL\<close>:
  in \<open>verifyWriteParams\<close> the second check overwrites the result of the first. Both
  \<open>writeSync\<close> and \<open>write\<close> return that value.
\<close>

theorem verifyWriteParams_both_broken:
  assumes "len = 0" and "u64 (offset + len) > pool_size cfg"
  shows "verifyWriteParams cfg offset len = - EFBIG
       \<and> fst (writeSync cfg st buff offset len) = - EFBIG
       \<and> fst (write_async cfg st buff offset len) = - EFBIG
       \<and> - EFBIG \<noteq> - EINVAL"
  using assms
  by (simp add: verifyWriteParams_def writeSync_def write_async_def Let_def EFBIG_def EINVAL_def)

theorem verifyWriteParams_both_broken_witness:
  "(0::nat) = 0 \<and> u64 (2000 + 0) > pool_size cfg8
   \<and> verifyWriteParams cfg8 2000 0 = - EFBIG
   \<and> fst (writeSync cfg8 fresh [] 2000 0) = - EFBIG
   \<and> fst (write_async cfg8 fresh [] 2000 0) = - EFBIG"
proof -
  have h: "u64 (2000 + 0) > pool_size cfg8"
    by (simp add: u64_def cfg8_def)
  show ?thesis
    using h verifyWriteParams_both_broken [OF refl h, of fresh "[]"] by simp
qed

text \<open>
  Claim C6. A rejected write should leave no trace. \<open>write\<close> checks its parameters
  first and returns with the engine untouched. \<open>writeSync\<close> registers its operation
  with the operations manager before it checks them: on a fresh engine, a write of
  zero bytes is answered with \<open>-EINVAL\<close> while operation 0 stays registered and is
  never made ready, so that the next \<open>sync\<close> of the manager waits for ever.
\<close>

theorem writeSync_rejected_keeps_operation:
  "writeSync cfg8 fresh [] 0 0 =
     (- EINVAL, fresh\<lparr>mOperations := [\<lparr>op_id = 0, ready = False\<rparr>], uuid_next := 1\<rparr>)
   \<and> write_async cfg8 fresh [] 0 0 = (- EINVAL, fresh)
   \<and> OpsManager_sync (snd (writeSync cfg8 fresh [] 0 0)) = None"
  by (simp add: writeSync_def write_async_def verifyWriteParams_def cfg8_def fresh_def
      addOperation_def u64_def EINVAL_def OpsManager_sync_def Let_def)

lemma write_async_rejected_unchanged:
  "verifyWriteParams cfg offset blen \<noteq> 0 \<Longrightarrow>
   write_async cfg st buff offset blen = (verifyWriteParams cfg offset blen, st)"
  by (simp add: write_async_def Let_def)

section \<open>The size update of a write\<close>

text \<open>
  Claim C7. When the comparison of the size update fails, the store answers
  \<open>-ECANCELED\<close> and changes nothing; \<open>realWrite\<close> ignores the answer of
  \<open>setSizeIfBigger\<close>: the write still returns 0 and the stored size is the one that was
  there before.
\<close>

theorem canceled_size_update_is_success:
  assumes "verifyWriteParams cfg offset blen = 0"
      and "fst (setSizeIfBigger (objs st) (u64 (offset + blen))) = - ECANCELED"
  shows "fst (writeSync cfg st buff offset blen) = 0
       \<and> stored_size_attr (objs (snd (writeSync cfg st buff offset blen))) = stored_size_attr (objs st)
       \<and> getSize cfg (objs (snd (writeSync cfg st buff offset blen))) = getSize cfg (objs st)"
proof -
  define st1 where "st1 = addOperation (st\<lparr>uuid_next := Suc (uuid_next st)\<rparr>) (uuid_next st)"
  have w: "writeSync cfg st buff offset blen = realWrite cfg st1 buff offset blen (uuid_next st)"
    using assms(1) by (simp add: writeSync_def Let_def st1_def)
  have o: "objs st1 = objs st" by (simp add: st1_def addOperation_def)
  have "stored_size_attr (objs (snd (realWrite cfg st1 buff offset blen (uuid_next st))))
        = stored_size_attr (objs st)"
    using realWrite_attr_cases [of cfg st1 buff offset blen "uuid_next st"]
      setSizeIfBigger_canceled [OF assms(2)] by (auto simp: o)
  then show ?thesis by (simp add: w getSize_eq)
qed

theorem canceled_size_update_is_success_witness:
  "verifyWriteParams cfg8 0 5 = 0
   \<and> fst (setSizeIfBigger (objs (sized_file 50)) (u64 (0 + 5))) = - ECANCELED
   \<and> fst (writeSync cfg8 (sized_file 50) ''hello'' 0 5) = 0
   \<and> stored_size_attr (objs (snd (writeSync cfg8 (sized_file 50) ''hello'' 0 5)))
       = stored_size_attr (objs (sized_file 50))
   \<and> getSize cfg8 (objs (snd (writeSync cfg8 (sized_file 50) ''hello'' 0 5)))
       = getSize cfg8 (objs (sized_file 50))"
proof -
  have v: "verifyWriteParams cfg8 0 5 = 0"
    by (simp add: verifyWriteParams_def cfg8_def u64_def)
  have c: "fst (setSizeIfBigger (objs (sized_file 50)) (u64 (0 + 5))) = - ECANCELED"
    by (simp add: setSizeIfBigger_def sized_file_def fresh_def stored_size_attr_def
        bl_less_fileSizeToHex u64_def)
  show ?thesis
    using v c canceled_size_update_is_success [OF v c, of "''hello''"] by simp
qed

text \<open>
  Claim C2, as amended. Provided the size entry is one the engine wrote, no sequence of
  writes (synchronous writes, asynchronous writes and the runs of their queued tasks)
  makes the stored size smaller. A write that ends at \<open>T = offset + blen\<close> and is not
  taken whole by the inline buffer, as is every write of an engine without one, reaches
  \<open>setSizeIfBigger\<close>: it leaves a stored size of at least \<open>T\<close>, and so does every later
  sequence of writes; this holds for \<open>realWrite\<close>, for \<open>writeSync\<close> and for the run of a
  task that \<open>write\<close> has queued. A write that the inline buffer takes whole returns
  before \<open>setSizeIfBigger\<close> and leaves every object, and so the stored size, as it was.
\<close>

theorem stored_size_monotone:
  assumes "size_attr_wf (objs st)"
  shows "getSize cfg (objs st) \<le> getSize cfg (objs (do_writes cfg st ws))
       \<and> (mInlineBuffer s = None \<longrightarrow> \<not> inline_takes_all s offset blen)
       \<and> (\<not> inline_takes_all st offset blen \<longrightarrow>
            u64 (offset + blen)
              \<le> getSize cfg (objs (do_writes cfg (snd (realWrite cfg st buff offset blen opId)) ws))
          \<and> (verifyWriteParams cfg offset blen = 0 \<longrightarrow>
               fst (writeSync cfg st buff offset blen) = 0
             \<and> u64 (offset + blen)
                 \<le> getSize cfg (objs (do_writes cfg (snd (writeSync cfg st buff offset blen)) ws))))
       \<and> (posted st = t # ts \<and> \<not> inline_takes_all st (t_offset t) (t_blen t) \<longrightarrow>
            u64 (t_offset t + t_blen t) \<le> getSize cfg (objs (do_writes cfg (run_posted cfg st) ws)))
       \<and> (inline_takes_all st off_in len_in \<and> len_in < 2 ^ 64 \<longrightarrow>
            objs (snd (realWrite cfg st buff_in off_in len_in op_in)) = objs st
          \<and> (verifyWriteParams cfg off_in len_in = 0 \<longrightarrow>
               fst (writeSync cfg st buff_in off_in len_in) = 0
             \<and> objs (snd (writeSync cfg st buff_in off_in len_in)) = objs st
             \<and> getSize cfg (objs (snd (writeSync cfg st buff_in off_in len_in))) = getSize cfg (objs st)))"
proof -
  let ?st1 = "addOperation (st\<lparr>uuid_next := Suc (uuid_next st)\<rparr>) (uuid_next st)"
  have wf1: "size_attr_wf (objs ?st1)" using assms by simp
  have ta1: "inline_takes_all ?st1 off len = inline_takes_all st off len" for off len
    by (simp add: inline_takes_all_def addOperation_def)
  have reach: "u64 (off + len) \<le> getSize cfg (objs (do_writes cfg (snd (realWrite cfg s b off len i)) ws))"
    if "size_attr_wf (objs s)" and "\<not> inline_takes_all s off len" for s b off len i
  proof -
    have "size_attr_wf (objs (snd (realWrite cfg s b off len i)))"
      using realWrite_size [OF that(1)] by simp
    from do_writes_size [OF this, of cfg ws] realWrite_size_reached [OF that, of cfg b i]
    show ?thesis by (meson le_trans)
  qed
  have c1: "getSize cfg (objs st) \<le> getSize cfg (objs (do_writes cfg st ws))"
    using do_writes_size [OF assms] by simp
  have c2: "mInlineBuffer s = None \<longrightarrow> \<not> inline_takes_all s offset blen"
    by (simp add: inline_takes_all_def)
  have c3: "\<not> inline_takes_all st offset blen \<longrightarrow>
            u64 (offset + blen)
              \<le> getSize cfg (objs (do_writes cfg (snd (realWrite cfg st buff offset blen opId)) ws))
          \<and> (verifyWriteParams cfg offset blen = 0 \<longrightarrow>
               fst (writeSync cfg st buff offset blen) = 0
             \<and> u64 (offset + blen)
                 \<le> getSize cfg (objs (do_writes cfg (snd (writeSync cfg st buff offset blen)) ws)))"
  proof (intro impI conjI)
    assume n: "\<not> inline_takes_all st offset blen"
    show "u64 (offset + blen)
              \<le> getSize cfg (objs (do_writes cfg (snd (realWrite cfg st buff offset blen opId)) ws))"
      by (rule reach [OF assms n])
    assume v: "verifyWriteParams cfg offset blen = 0"
    show "fst (writeSync cfg st buff offset blen) = 0"
      using v by (simp add: writeSync_def Let_def)
    have w: "snd (writeSync cfg st buff offset blen)
             = snd (realWrite cfg ?st1 buff offset blen (uuid_next st))"
      using v by (simp add: writeSync_def Let_def)
    have n1: "\<not> inline_takes_all ?st1 offset blen" using n by (simp add: ta1)
    show "u64 (offset + blen)
            \<le> getSize cfg (objs (do_writes cfg (snd (writeSync cfg st buff offset blen)) ws))"
      unfolding w by (rule reach [OF wf1 n1])
  qed
  have c4: "posted st = t # ts \<and> \<not> inline_takes_all st (t_offset t) (t_blen t) \<longrightarrow>
            u64 (t_offset t + t_blen t) \<le> getSize cfg (objs (do_writes cfg (run_posted cfg st) ws))"
  proof (intro impI, elim conjE)
    assume p: "posted st = t # ts" and n: "\<not> inline_takes_all st (t_offset t) (t_blen t)"
    let ?s = "st\<lparr>posted := ts\<rparr>"
    have r: "run_posted cfg st = snd (realWrite cfg ?s (t_buff t) (t_offset t) (t_blen t) (t_op t))"
      using p by (simp add: run_posted_def)
    have wfs: "size_attr_wf (objs ?s)" using assms by simp
    have ns: "\<not> inline_takes_all ?s (t_offset t) (t_blen t)"
      using n by (simp add: inline_takes_all_def)
    show "u64 (t_offset t + t_blen t) \<le> getSize cfg (objs (do_writes cfg (run_posted cfg st) ws))"
      unfolding r by (rule reach [OF wfs ns])
  qed
  have c5: "inline_takes_all st off_in len_in \<and> len_in < 2 ^ 64 \<longrightarrow>
            objs (snd (realWrite cfg st buff_in off_in len_in op_in)) = objs st
          \<and> (verifyWriteParams cfg off_in len_in = 0 \<longrightarrow>
               fst (writeSync cfg st buff_in off_in len_in) = 0
             \<and> objs (snd (writeSync cfg st buff_in off_in len_in)) = objs st
             \<and> getSize cfg (objs (snd (writeSync cfg st buff_in off_in len_in))) = getSize cfg (objs st))"
  proof (intro impI, elim conjE, intro conjI impI)
    assume a: "inline_takes_all st off_in len_in" and b: "len_in < 2 ^ 64"
    show "objs (snd (realWrite cfg st buff_in off_in len_in op_in)) = objs st"
      by (rule realWrite_taken [OF a b])
    assume v: "verifyWriteParams cfg off_in len_in = 0"
    show "fst (writeSync cfg st buff_in off_in len_in) = 0"
      using v by (simp add: writeSync_def Let_def)
    have w: "snd (writeSync cfg st buff_in off_in len_in)
             = snd (realWrite cfg ?st1 buff_in off_in len_in (uuid_next st))"
      using v by (simp add: writeSync_def Let_def)
    have a1: "inline_takes_all ?st1 off_in len_in" using a by (simp add: ta1)
    show o: "objs (snd (writeSync cfg st buff_in off_in len_in)) = objs st"
      unfolding w using realWrite_taken [OF a1 b, of cfg buff_in "uuid_next st"] by simp
    show "getSize cfg (objs (snd (writeSync cfg st buff_in off_in len_in))) = getSize cfg (objs st)"
      by (simp only: o)
  qed
  from c1 c2 c3 c4 c5 show ?thesis by (intro conjI)
qed


lemma inline4_queued_eq:
  "inline4_queued =
     inline4\<lparr>mOperations := [\<lparr>op_id = 0, ready = False\<rparr>], uuid_next := 1,
             posted := [\<lparr>t_buff = ''ABCDEFGHIJ'', t_offset = 0, t_blen = 10, t_op = 0\<rparr>]\<rparr>"
  by (simp add: inline4_queued_def write_async_def verifyWriteParams_def cfg8_def u64_def
      inline4_def fresh_def addOperation_def Let_def)


theorem stored_size_monotone_witness:
  "size_attr_wf (objs inline4_queued)
   \<and> mInlineBuffer fresh = None \<and> \<not> inline_takes_all fresh 0 10
   \<and> \<not> inline_takes_all inline4_queued 0 10
   \<and> verifyWriteParams cfg8 0 10 = 0
   \<and> posted inline4_queued = [\<lparr>t_buff = ''ABCDEFGHIJ'', t_offset = 0, t_blen = 10, t_op = 0\<rparr>]
   \<and> inline_takes_all inline4_queued 0 2 \<and> (2::nat) < 2 ^ 64
   \<and> verifyWriteParams cfg8 0 2 = 0
   \<and> getSize cfg8 (objs inline4_queued)
       \<le> getSize cfg8 (objs (do_writes cfg8 inline4_queued [WriteSync ''xy'' 0 2]))
   \<and> fst (writeSync cfg8 inline4_queued ''ABCDEFGHIJ'' 0 10) = 0
   \<and> u64 (0 + 10)
       \<le> getSize cfg8 (objs (do_writes cfg8 (snd (writeSync cfg8 inline4_queued ''ABCDEFGHIJ'' 0 10))
                                [WriteSync ''xy'' 0 2]))
   \<and> u64 (0 + 10)
       \<le> getSize cfg8 (objs (do_writes cfg8 (run_posted cfg8 inline4_queued) [WriteSync ''xy'' 0 2]))
   \<and> fst (writeSync cfg8 inline4_queued ''hi'' 0 2) = 0
   \<and> objs (snd (writeSync cfg8 inline4_queued ''hi'' 0 2)) = objs inline4_queued
   \<and> getSize cfg8 (objs (snd (writeSync cfg8 inline4_queued ''hi'' 0 2)))
       = getSize cfg8 (objs inline4_queued)"
proof -
  let ?t = "\<lparr>t_buff = ''ABCDEFGHIJ'', t_offset = 0, t_blen = 10, t_op = 0\<rparr>"
  have wf: "size_attr_wf (objs inline4_queued)"
    by (simp add: inline4_queued_eq inline4_def size_attr_wf_def stored_size_attr_def fresh_def)
  have n: "\<not> inline_takes_all inline4_queued 0 10"
    by (simp add: inline4_queued_eq inline4_def inline_takes_all_def)
  have v: "verifyWriteParams cfg8 0 10 = 0"
    by (simp add: verifyWriteParams_def cfg8_def u64_def)
  have p: "posted inline4_queued = [?t]"
    by (simp add: inline4_queued_eq)
  have a: "inline_takes_all inline4_queued 0 2"
    by (simp add: inline4_queued_eq inline4_def inline_takes_all_def)
  have b: "(2::nat) < 2 ^ 64" by simp
  have f: "mInlineBuffer fresh = None" by (simp add: fresh_def)
  have v2: "verifyWriteParams cfg8 0 2 = 0"
    by (simp add: verifyWriteParams_def cfg8_def u64_def)
  show ?thesis
    using wf n v p a b v2 f
      stored_size_monotone [OF wf, where cfg = cfg8 and s = fresh and ws = "[WriteSync ''xy'' 0 2]"
        and offset = 0 and blen = 10 and buff = "''ABCDEFGHIJ''" and opId = 0
        and t = ?t and ts = "[]" and off_in = 0 and len_in = 2 and buff_in = "''hi''" and op_in = 0]
    by simp
qed

text \<open>
  The claim as it was stated fails for an engine with an inline buffer: a write that
  fits into the buffer returns before \<open>setSizeIfBigger\<close> is reached. After the
  successful write of two bytes at offset 0 the stored size is still 0.
\<close>

theorem inline_write_keeps_size_counterexample:
  "fst (writeSync cfg8 inline16 ''hi'' 0 2) = 0
   \<and> getSize cfg8 (objs (snd (writeSync cfg8 inline16 ''hi'' 0 2))) = 0
   \<and> \<not> (0 + 2 \<le> getSize cfg8 (objs (snd (writeSync cfg8 inline16 ''hi'' 0 2))))"
proof -
  have v: "verifyWriteParams cfg8 0 2 = 0"
    by (simp add: verifyWriteParams_def cfg8_def u64_def)
  have "objs (snd (writeSync cfg8 inline16 ''hi'' 0 2)) = Map.empty"
    by (simp add: writeSync_def v Let_def realWrite_def inline16_def fresh_def addOperation_def
        ib_write_def size_of_int_def u64_sub_def setReady_def)
  moreover have "getSize cfg8 Map.empty = 0"
    by (simp add: getSize_def getLastStripeIndexAndSize_def)
  ultimately show ?thesis
    using v by (simp add: writeSync_def Let_def)
qed

section \<open>Reading\<close>

subsection \<open>Evaluation on concrete inputs\<close>

lemma zeros_0 [simp]: "zeros 0 = []"
  by (simp add: zeros_def)

lemma zeros_Suc [simp]: "zeros (Suc n) = CHR 0x00 # zeros n"
  by (simp add: zeros_def)

lemma zeros_numeral [simp]: "zeros (numeral k) = CHR 0x00 # zeros (pred_numeral k)"
  unfolding numeral_eq_Suc [of k] by (rule zeros_Suc)

lemma length_zeros [simp]: "length (zeros n) = n"
  by (simp add: zeros_def)

lemma hex_fixed_numeral:
  "hex_fixed (numeral k) n = hex_fixed (pred_numeral k) (n div 16) @ [hexdigit (n mod 16)]"
  unfolding numeral_eq_Suc [of k] by (rule hex_fixed.simps)

lemma realWrite_loop_numeral:
  "realWrite_loop cfg buff blen firstStripe (numeral k) i currentOffset bytesToWrite p =
     (let len = min (stripe_size cfg - currentOffset) bytesToWrite;
          contentsStr = take len (drop (blen - bytesToWrite) buff);
          contents = contentsStr @
            (if has_alignment cfg then zeros (stripe_size cfg - len) else [])
      in realWrite_loop cfg buff blen firstStripe (pred_numeral k) (Suc i) 0 (bytesToWrite - len)
           (op_write p (firstStripe + i) currentOffset contents))"
  unfolding numeral_eq_Suc [of k] by (rule realWrite_loop.simps)

lemma fileSizeToHex_23: "fileSizeToHex 23 = ''0000000000000017''"
  by (simp add: fileSizeToHex_def hexdigit_def hex_fixed_numeral)

lemma strtoul16_23: "strtoul16 ''0000000000000017'' = 23"
  by (simp add: strtoul16_def hexval_def)

lemmas write_eval = writeSync_def realWrite_def addOperation_def verifyWriteParams_def setReady_def
  realWrite_stripes_def cfg8_def u64_def u64_sub_def Let_def setSizeIfBigger_def fresh_def
  stored_size_attr_def op_omap_set_def op_write_def write_at_def realWrite_loop_numeral

lemmas read_eval = read_def read_prefix_def read_stripes_def OpsManager_sync_def
  getLastStripeIndexAndSize_def ssize_of_def size_of_int_def u64_def cfg8_def read_loop.simps
  ioctx_read_def memcpy_to_def EINVAL_def ENOENT_def EOVERFLOW_def Let_def

lemma writeSync_XYZ:
  "writeSync cfg8 fresh ''XYZ'' 20 3 =
     (0, fresh\<lparr>objs := [0 \<mapsto> \<lparr>data = [], omap_file_size = Some ''0000000000000017''\<rparr>,
                        2 \<mapsto> \<lparr>data = [CHR 0x00, CHR 0x00, CHR 0x00, CHR 0x00,
                                        CHR ''X'', CHR ''Y'', CHR ''Z''],
                                omap_file_size = None\<rparr>],
               mOperations := [\<lparr>op_id = 0, ready = True\<rparr>], uuid_next := 1\<rparr>)"
  by (simp add: write_eval fileSizeToHex_23)

text \<open>
  Claim C4. The part of a read that falls into a stripe without an object should come
  back as zero bytes. In the loop of \<open>read\<close> the test \<open>(size_t) ret < length\<close> is false
  for the negative \<open>ret = -ENOENT\<close>, so neither the zero fill nor the error return
  behind it is reached. After \<open>XYZ\<close> has been written at offset 20 of a fresh file
  (stripes of 8 bytes), the file has 23 bytes and no object for stripe 1; the read of
  bytes 8 to 15 returns 8 and leaves the caller's buffer as it was.
\<close>

theorem read_missing_stripe_not_zeroed:
  "fst (writeSync cfg8 fresh ''XYZ'' 20 3) = 0
   \<and> getSize cfg8 (objs (snd (writeSync cfg8 fresh ''XYZ'' 20 3))) = 23
   \<and> objs (snd (writeSync cfg8 fresh ''XYZ'' 20 3)) 1 = None
   \<and> map_option (\<lambda>(r, b, s). (r, b))
        (read cfg8 junk (snd (writeSync cfg8 fresh ''XYZ'' 20 3)) ''AAAAAAAA'' 8 8)
      = Some (8, ''AAAAAAAA'')"
  unfolding writeSync_XYZ
  by (simp add: read_eval fresh_def strtoul16_23 getSize_eq stored_size_attr_def)

lemma writeSync_hello:
  "writeSync cfg8 inline16 ''hello'' 0 5 =
     (0, inline16\<lparr>mOperations := [\<lparr>op_id = 0, ready = True\<rparr>], uuid_next := 1,
                  mInlineBuffer := Some \<lparr>capacity = 16, contents = ''hello''\<rparr>\<rparr>)"
  by (simp add: write_eval inline16_def ib_write_def size_of_int_def)

text \<open>
  Claim C9. The inline block of \<open>read\<close> should copy
  \<open>min(len, inline_contents_len - off)\<close> bytes. It copies \<open>min(blen, contentsStr.length())\<close>
  bytes from \<open>contentsStr.c_str() + offset\<close>: with the contents \<open>hello\<close>, a read of 5
  bytes at offset 3 takes 5 bytes, the last two from behind the terminator of the
  string, and returns 5 at once, where the claim has 2 bytes copied and the read go on
  with the remaining 3.
\<close>

theorem read_inline_copies_too_much:
  "fst (writeSync cfg8 inline16 ''hello'' 0 5) = 0
   \<and> mInlineBuffer (snd (writeSync cfg8 inline16 ''hello'' 0 5))
       = Some \<lparr>capacity = 16, contents = ''hello''\<rparr>
   \<and> map_option (\<lambda>(r, b, s). (r, b))
        (read cfg8 junk (snd (writeSync cfg8 inline16 ''hello'' 0 5)) ''AAAAA'' 3 5)
      = Some (5, [CHR ''l'', CHR ''o'', CHR 0x00, junk 0, junk 1])
   \<and> min 5 (length ''hello'' - 3) = (2::nat)"
  unfolding writeSync_hello
  by (simp add: read_eval inline16_def fresh_def read_inline_def c_str_at_def)

subsection \<open>Reads beyond the size of the file\<close>



section \<open>Removing\<close>

lemma remove_loop_at:
  "remove_loop n i p j = (if i \<le> j \<and> j < i + n then None else p j)"
  by (induction n arbitrary: i p) (auto simp: op_remove_def)

lemma getLastStripeIndex_missing: "p 0 = None \<Longrightarrow> getLastStripeIndex cfg p = - ENOENT"
  by (simp add: getLastStripeIndex_def getLastStripeIndexAndSize_def)

text \<open>
  Claim C8. With every registered operation ready, \<open>remove\<close> on a file without base
  object returns \<open>-ENOENT\<close> and leaves the pool as it is. On a file whose base object
  exists and records a size below \<open>2 ^ 63\<close>, it returns 0 and removes the base object, so
  that a second call returns \<open>-ENOENT\<close>.
\<close>

theorem remove_missing_is_not_found:
  assumes "list_all ready (mOperations st)"
  shows "(objs st 0 = None \<longrightarrow>
            (\<exists>st'. remove_io cfg st = Some (- ENOENT, st') \<and> objs st' = objs st))
       \<and> (objs st 0 \<noteq> None \<and> 0 \<le> getLastStripeIndex cfg (objs st) \<longrightarrow>
            (\<exists>st1 st2. remove_io cfg st = Some (0, st1)
                     \<and> remove_io cfg st1 = Some (- ENOENT, st2)
                     \<and> objs st2 = objs st1))"
proof (intro conjI impI)
  assume "objs st 0 = None"
  with assms show "\<exists>st'. remove_io cfg st = Some (- ENOENT, st') \<and> objs st' = objs st"
    by (simp add: remove_io_def OpsManager_sync_def Let_def getLastStripeIndex_missing ENOENT_def)
next
  assume a: "objs st 0 \<noteq> None \<and> 0 \<le> getLastStripeIndex cfg (objs st)"
  define n where "n = Suc (size_of_int (getLastStripeIndex cfg (objs st)))"
  define st1 where "st1 = setReady
      ((addOperation (st\<lparr>uuid_next := Suc (uuid_next st), mOperations := []\<rparr>) (uuid_next st))
         \<lparr>objs := remove_loop n 0 (objs st)\<rparr>) (uuid_next st)"
  have r1: "remove_io cfg st = Some (0, st1)"
    using assms a by (simp add: remove_io_def OpsManager_sync_def Let_def st1_def n_def)
  have gone: "objs st1 0 = None"
    by (simp add: st1_def setReady_def remove_loop_at n_def op_remove_def)
  have rdy: "list_all ready (mOperations st1)"
    by (simp add: st1_def setReady_def addOperation_def)
  have "\<exists>st2. remove_io cfg st1 = Some (- ENOENT, st2) \<and> objs st2 = objs st1"
    using rdy gone
    by (simp add: remove_io_def OpsManager_sync_def Let_def getLastStripeIndex_missing ENOENT_def)
  with r1 show "\<exists>st1 st2. remove_io cfg st = Some (0, st1)
      \<and> remove_io cfg st1 = Some (- ENOENT, st2) \<and> objs st2 = objs st1"
    by blast
qed

theorem remove_missing_is_not_found_witness:
  "list_all ready (mOperations fresh) \<and> objs fresh 0 = None
   \<and> (\<exists>st'. remove_io cfg8 fresh = Some (- ENOENT, st') \<and> objs st' = objs fresh)
   \<and> list_all ready (mOperations (sized_file 12)) \<and> objs (sized_file 12) 0 \<noteq> None
   \<and> 0 \<le> getLastStripeIndex cfg8 (objs (sized_file 12))
   \<and> (\<exists>st1 st2. remove_io cfg8 (sized_file 12) = Some (0, st1)
                \<and> remove_io cfg8 st1 = Some (- ENOENT, st2) \<and> objs st2 = objs st1)"
proof -
  have a: "list_all ready (mOperations fresh)" and b: "objs fresh 0 = None"
    by (simp_all add: fresh_def)
  have c: "list_all ready (mOperations (sized_file 12))"
    and d: "objs (sized_file 12) 0 \<noteq> None"
    by (simp_all add: sized_file_def fresh_def)
  have e: "0 \<le> getLastStripeIndex cfg8 (objs (sized_file 12))"
    by (simp add: getLastStripeIndex_def getLastStripeIndexAndSize_def sized_file_def fresh_def
        strtoul16_fileSizeToHex u64_def ssize_of_def cfg8_def)
  show ?thesis
    using a b c d e remove_missing_is_not_found [OF a, of cfg8]
      remove_missing_is_not_found [OF c, of cfg8]
    by blast
qed

section \<open>Truncating\<close>

lemma ssize_of_small: "n < 2 ^ 63 \<Longrightarrow> ssize_of n = int n"
  by (simp add: ssize_of_def u64_def)

lemma size_of_int_int: "n < 2 ^ 64 \<Longrightarrow> size_of_int (int n) = n"
  by (simp add: size_of_int_def nat_mod_distrib zmod_int)

lemma getLastStripeIndexAndSize_ok:
  assumes "p 0 \<noteq> None" and "getSize cfg p < 2 ^ 63"
  shows "getLastStripeIndexAndSize cfg p
         = (int ((getSize cfg p - 1) div stripe_size cfg), Some (getSize cfg p))"
proof -
  from assms(1) obtain ob where ob: "p 0 = Some ob" by auto
  define v where "v = getSize cfg p"
  have v63: "v < 2 ^ 63" using assms(2) by (simp add: v_def)
  then have v64: "v < 2 ^ 64" by simp
  have fs: "(case omap_file_size ob of None \<Rightarrow> 0 | Some s \<Rightarrow> ssize_of (strtoul16 s)) = int v"
  proof (cases "omap_file_size ob")
    case None
    then show ?thesis
      by (simp add: v_def getSize_eq stored_size_attr_def ob strtoul16_def)
  next
    case (Some s)
    then have "v = strtoul16 s" by (simp add: v_def getSize_eq stored_size_attr_def ob)
    with Some v63 show ?thesis by (simp add: ssize_of_small)
  qed
  have d: "(v - 1) div stripe_size cfg < 2 ^ 63"
    using v63 by (meson div_le_dividend le_less_trans less_imp_diff_less)
  have "nat (int v - 1) = v - 1" by simp
  then show ?thesis
    using d v64
    by (simp add: getLastStripeIndexAndSize_def ob fs Let_def size_of_int_int ssize_of_small
        v_def [symmetric])
qed




lemma stored_size_attr_truncate_last [simp]:
  "stored_size_attr (truncate_last cfg nls nlss p) = stored_size_attr p"
  by (auto simp: stored_size_attr_def truncate_last_def op_write_assert_exists_def
      op_truncate_assert_exists_def split: option.splits)

lemma stored_size_attr_cong: "p 0 = q 0 \<Longrightarrow> stored_size_attr p = stored_size_attr q"
  by (simp add: stored_size_attr_def)



lemma op_omap_set_other: "j \<noteq> 0 \<Longrightarrow> op_omap_set p s j = p j"
  by (simp add: op_omap_set_def split: option.splits)

lemma op_omap_set_base: "op_omap_set p s 0 \<noteq> None"
  by (simp add: op_omap_set_def split: option.splits)














section \<open>Writing and reading back\<close>

lemma stripe_holds_cong: "p j = q j \<Longrightarrow> stripe_holds cfg B p j = stripe_holds cfg B q j"
  by (simp add: stripe_holds_def)

lemma op_write_other: "j \<noteq> i \<Longrightarrow> op_write p i off bs j = p j"
  by (simp add: op_write_def split: option.splits)

lemma op_write_data:
  "\<exists>ob. op_write p i 0 bs i = Some ob \<and> take (length bs) (data ob) = bs"
  by (cases "p i") (simp_all add: op_write_def write_at_def)

lemma stripe_holds_op_write:
  assumes "0 < stripe_size cfg"
  shows "stripe_holds cfg B
           (op_write p i 0
              (take (min (stripe_size cfg) (length B - i * stripe_size cfg))
                    (drop (length B - (length B - i * stripe_size cfg)) B) @ pad)) i"
proof (cases "i * stripe_size cfg \<le> length B")
  case True
  let ?ss = "stripe_size cfg"
  let ?len = "min ?ss (length B - i * ?ss)"
  let ?c = "take ?len (drop (i * ?ss) B)"
  have d: "length B - (length B - i * ?ss) = i * ?ss" using True by simp
  have l: "length ?c = ?len" by simp
  obtain ob where ob: "op_write p i 0 (?c @ pad) i = Some ob"
    and t: "take (length (?c @ pad)) (data ob) = ?c @ pad"
    using op_write_data [of p i "?c @ pad"] by blast
  have "take ?len (data ob) = take ?len (take (length (?c @ pad)) (data ob))"
    by (simp add: min_absorb1)
  also have "\<dots> = ?c" unfolding t using l by simp
  also have "\<dots> = take ?ss (drop (i * ?ss) B)" by (simp add: min_def)
  finally show ?thesis
    unfolding stripe_holds_def d using ob by simp
next
  case False
  obtain ob where ob: "op_write p i 0
              (take (min (stripe_size cfg) (length B - i * stripe_size cfg))
                    (drop (length B - (length B - i * stripe_size cfg)) B) @ pad) i = Some ob"
    using op_write_data by blast
  with False show ?thesis by (simp add: stripe_holds_def)
qed

lemma realWrite_loop_other:
  "j < firstStripe + i \<or> firstStripe + i + k \<le> j \<Longrightarrow>
   realWrite_loop cfg buff blen firstStripe k i cur btw p j = p j"
proof (induction k arbitrary: i cur btw p)
  case 0
  then show ?case by simp
next
  case (Suc k)
  from Suc.prems have a: "j < firstStripe + Suc i \<or> firstStripe + Suc i + k \<le> j"
    and b: "j \<noteq> firstStripe + i" by auto
  show ?case
    by (simp only: realWrite_loop.simps Let_def Suc.IH [OF a] op_write_other [OF b])
qed

lemma realWrite_loop_step:
  "realWrite_loop cfg B (length B) 0 (Suc k) i 0 (length B - i * stripe_size cfg) p
   = realWrite_loop cfg B (length B) 0 k (Suc i) 0 (length B - Suc i * stripe_size cfg)
       (op_write p i 0
          (take (min (stripe_size cfg) (length B - i * stripe_size cfg))
                (drop (length B - (length B - i * stripe_size cfg)) B) @
           (if has_alignment cfg
            then zeros (stripe_size cfg - min (stripe_size cfg) (length B - i * stripe_size cfg))
            else [])))"
proof -
  have n: "(length B - i * stripe_size cfg) - min (stripe_size cfg) (length B - i * stripe_size cfg)
           = length B - Suc i * stripe_size cfg"
    by (simp add: min_def add.commute)
  show ?thesis
    by (simp only: realWrite_loop.simps Let_def diff_zero add_0 n)
qed

lemma realWrite_loop_aligned:
  assumes "0 < stripe_size cfg"
  shows "i \<le> j \<Longrightarrow> j < i + k \<Longrightarrow>
         stripe_holds cfg B
           (realWrite_loop cfg B (length B) 0 k i 0 (length B - i * stripe_size cfg) p) j"
proof (induction k arbitrary: i p)
  case 0
  then show ?case by simp
next
  case (Suc k)
  define c where "c = take (min (stripe_size cfg) (length B - i * stripe_size cfg))
                (drop (length B - (length B - i * stripe_size cfg)) B) @
           (if has_alignment cfg
            then zeros (stripe_size cfg - min (stripe_size cfg) (length B - i * stripe_size cfg))
            else [])"
  define p1 where "p1 = op_write p i 0 c"
  define q where "q = realWrite_loop cfg B (length B) 0 k (Suc i) 0
                        (length B - Suc i * stripe_size cfg) p1"
  have step: "realWrite_loop cfg B (length B) 0 (Suc k) i 0 (length B - i * stripe_size cfg) p = q"
    unfolding q_def p1_def c_def by (rule realWrite_loop_step)
  have here: "stripe_holds cfg B p1 i"
    unfolding p1_def c_def by (rule stripe_holds_op_write [OF assms])
  show ?case
  proof (cases "j = i")
    case True
    have "q i = p1 i"
      unfolding q_def by (rule realWrite_loop_other) simp
    then have "stripe_holds cfg B q i = stripe_holds cfg B p1 i"
      by (rule stripe_holds_cong)
    with here True show ?thesis unfolding step by simp
  next
    case False
    with Suc.prems have "Suc i \<le> j" "j < Suc i + k" by simp_all
    then have "stripe_holds cfg B q j" unfolding q_def by (rule Suc.IH)
    then show ?thesis unfolding step .
  qed
qed

lemma list_all_ready_setReady:
  "list_all ready (mOperations st) \<Longrightarrow>
   list_all ready (mOperations (setReady (addOperation st i) i))"
  by (auto simp: setReady_def addOperation_def list_all_iff)

lemma writeSync_on_empty:
  assumes ss: "0 < stripe_size cfg" and ps: "pool_size cfg < 2 ^ 63"
      and n: "0 < length B" "length B \<le> pool_size cfg"
      and e: "objs st = Map.empty" and i: "mInlineBuffer st = None"
      and r: "list_all ready (mOperations st)"
  shows "fst (writeSync cfg st B 0 (length B)) = 0"
    and "\<forall>j. j * stripe_size cfg < length B \<longrightarrow>
           stripe_holds cfg B (objs (snd (writeSync cfg st B 0 (length B)))) j"
    and "getSize cfg (objs (snd (writeSync cfg st B 0 (length B)))) = length B"
    and "list_all ready (mOperations (snd (writeSync cfg st B 0 (length B))))"
    and "mInlineBuffer (snd (writeSync cfg st B 0 (length B))) = None"
proof -
  let ?ss = "stripe_size cfg"
  let ?n = "length B"
  let ?ls = "(?n - 1) div ?ss"
  let ?st1 = "addOperation (st\<lparr>uuid_next := Suc (uuid_next st)\<rparr>) (uuid_next st)"
  let ?p1 = "op_omap_set Map.empty (fileSizeToHex ?n)"
  let ?p2 = "realWrite_loop cfg B ?n 0 (Suc ?ls) 0 0 (?n - 0 * ?ss) ?p1"
  have n64: "?n < 2 ^ 64" using n ps by simp
  then have u: "u64 ?n = ?n" by (simp add: u64_def)
  have v: "verifyWriteParams cfg 0 ?n = 0"
    using n by (simp add: verifyWriteParams_def u)
  have "?ls \<le> ?n - 1" by (rule div_le_dividend)
  moreover have "pool_size cfg < 9223372036854775808" using ps by simp
  ultimately have "Suc ?ls < 18446744073709551616" using n by linarith
  then have ls: "Suc ?ls < 2 ^ 64" by simp
  have t1: "u64_sub (u64 ?n) 1 = ?n - 1" using n by (auto simp: u u64_sub_def Suc_le_eq)
  have t2: "u64_sub ?ls 0 = ?ls" by (simp add: u64_sub_def)
  have t3: "u64 (?ls + 1) = Suc ?ls" using ls by (simp add: u64_def)
  have tot: "u64 (u64_sub (u64_sub (u64 ?n) 1 div ?ss) 0 + 1) = Suc ?ls"
    by (simp only: t1 t2 t3)
  have cas: "snd (setSizeIfBigger Map.empty (u64 ?n)) = ?p1"
    by (simp add: setSizeIfBigger_def u stored_size_attr_def bl_less_Nil_fileSizeToHex)
  have o1: "objs ?st1 = Map.empty" and i1: "mInlineBuffer ?st1 = None"
    by (simp_all add: addOperation_def e i)
  have rs: "realWrite_stripes cfg ?st1 B 0 ?n (uuid_next st)
            = (0, setReady (?st1\<lparr>objs := ?p2\<rparr>) (uuid_next st))"
    unfolding realWrite_stripes_def Let_def
    by (simp only: add_0 mod_0 div_0 tot o1 cas mult_zero_left diff_zero)
  have w: "writeSync cfg st B 0 ?n = (0, setReady (?st1\<lparr>objs := ?p2\<rparr>) (uuid_next st))"
    by (simp add: writeSync_def v Let_def realWrite_def i1 rs del: realWrite_loop.simps)
  show "fst (writeSync cfg st B 0 ?n) = 0" by (simp add: w)
  have o: "objs (snd (writeSync cfg st B 0 ?n)) = ?p2"
    by (simp add: w setReady_def)
  show "\<forall>j. j * ?ss < ?n \<longrightarrow> stripe_holds cfg B (objs (snd (writeSync cfg st B 0 ?n))) j"
  proof (intro allI impI)
    fix j assume "j * ?ss < ?n"
    then have "j * ?ss \<le> ?n - 1" by simp
    then have "j \<le> ?ls" using ss by (metis div_le_mono div_mult_self_is_m)
    then have "0 \<le> j" "j < 0 + Suc ?ls" by simp_all
    then have "stripe_holds cfg B ?p2 j"
      by (rule realWrite_loop_aligned [OF ss])
    then show "stripe_holds cfg B (objs (snd (writeSync cfg st B 0 ?n))) j"
      unfolding o .
  qed
  show "getSize cfg (objs (snd (writeSync cfg st B 0 ?n))) = ?n"
    unfolding o by (simp add: getSize_eq strtoul16_fileSizeToHex u del: realWrite_loop.simps)
  have "mOperations (snd (writeSync cfg st B 0 ?n))
        = mOperations (setReady (addOperation st (uuid_next st)) (uuid_next st))"
    by (simp add: w setReady_def addOperation_def)
  with list_all_ready_setReady [OF r]
  show "list_all ready (mOperations (snd (writeSync cfg st B 0 ?n)))" by simp
  show "mInlineBuffer (snd (writeSync cfg st B 0 ?n)) = None"
    by (simp add: w setReady_def addOperation_def i)
qed

lemma ioctx_read_holds:
  assumes "stripe_holds cfg B p i"
  shows "ioctx_read p i (min (stripe_size cfg) (length B - i * stripe_size cfg)) 0
         = (int (min (stripe_size cfg) (length B - i * stripe_size cfg)),
            take (stripe_size cfg) (drop (i * stripe_size cfg) B))"
proof -
  from assms obtain ob where ob: "p i = Some ob"
    and t: "take (min (stripe_size cfg) (length B - i * stripe_size cfg)) (data ob)
            = take (stripe_size cfg) (drop (i * stripe_size cfg) B)"
    unfolding stripe_holds_def by blast
  show ?thesis
    by (simp add: ioctx_read_def ob t Let_def)
qed

lemma read_loop_full_read:
  assumes btr: "0 < btr"
      and len: "min (stripe_size cfg - cur) btr = len"
      and rd: "ioctx_read p (u64 (blen - btr + offset) div stripe_size cfg) len cur = (int len, bl)"
      and pos: "0 < len" and small: "len < 2 ^ 64"
  shows "read_loop cfg p offset blen cur btr br pos b
         = (if btr < stripe_size cfg then Some (ssize_of (br + len), memcpy_to b pos bl)
            else read_loop cfg p offset blen 0 (btr - len) (br + len) (pos + len)
                   (memcpy_to b pos bl))"
proof -
  have sz: "size_of_int (int len) = len"
    using small by (simp add: size_of_int_def nat_mod_distrib zmod_int)
  show ?thesis
    by (subst read_loop.simps) (simp add: btr len rd sz pos Let_def)
qed

lemma read_loop_iter:
  assumes ss: "0 < stripe_size cfg" and n: "length B < 2 ^ 63"
      and h: "stripe_holds cfg B p i"
      and d: "i * stripe_size cfg < length B"
  shows "read_loop cfg p 0 (length B) 0 (length B - i * stripe_size cfg)
           (i * stripe_size cfg) (i * stripe_size cfg) b
         = (if length B - i * stripe_size cfg < stripe_size cfg
            then Some (int (length B),
                       memcpy_to b (i * stripe_size cfg)
                         (take (stripe_size cfg) (drop (i * stripe_size cfg) B)))
            else read_loop cfg p 0 (length B) 0 (length B - Suc i * stripe_size cfg)
                   (Suc i * stripe_size cfg) (Suc i * stripe_size cfg)
                   (memcpy_to b (i * stripe_size cfg)
                      (take (stripe_size cfg) (drop (i * stripe_size cfg) B))))"
proof -
  define ss where "ss = stripe_size cfg"
  define m where "m = length B"
  define dd where "dd = i * ss"
  define btr where "btr = m - dd"
  define len where "len = min (ss - 0) btr"
  define bl where "bl = take ss (drop dd B)"
  have ss0: "0 < ss" using ss by (simp add: ss_def)
  have d': "dd < m" using d by (simp add: dd_def ss_def m_def)
  have btr: "0 < btr" using d' by (simp add: btr_def)
  have stripe: "u64 (m - btr + 0) div ss = i"
  proof -
    have "m - btr + 0 = dd" using d' by (simp add: btr_def)
    moreover have "dd < 2 ^ 64" using d' n by (simp add: m_def)
    ultimately show ?thesis using ss0 by (simp add: u64_def dd_def)
  qed
  have len64: "len < 2 ^ 64" using n d' by (simp add: len_def btr_def m_def)
  have len0: "0 < len" using ss0 btr by (simp add: len_def)
  have rd: "ioctx_read p (u64 (m - btr + 0) div ss) len 0 = (int len, bl)"
    unfolding stripe using ioctx_read_holds [OF h]
    by (simp add: len_def btr_def m_def dd_def ss_def bl_def)
  have it: "read_loop cfg p 0 m 0 btr dd dd b
         = (if btr < ss then Some (ssize_of (dd + len), memcpy_to b dd bl)
            else read_loop cfg p 0 m 0 (btr - len) (dd + len) (dd + len) (memcpy_to b dd bl))"
    unfolding ss_def
    by (rule read_loop_full_read)
      (use btr len0 len64 rd in \<open>simp_all add: len_def ss_def\<close>)
  show ?thesis
  proof (cases "btr < ss")
    case True
    then have "dd + len = m" using d' by (simp add: len_def btr_def)
    then have "ssize_of (dd + len) = int m"
      using n by (simp add: ssize_of_def u64_def m_def)
    with True it show ?thesis
      by (simp add: btr_def m_def dd_def ss_def bl_def)
  next
    case False
    then have "btr - len = m - Suc i * ss" "dd + len = Suc i * ss"
      by (simp_all add: len_def btr_def dd_def min_def add.commute)
    with False it show ?thesis
      by (simp add: btr_def m_def dd_def ss_def bl_def del: mult_Suc)
  qed
qed

lemma length_memcpy_to:
  "pos + length bs \<le> length b \<Longrightarrow> length (memcpy_to b pos bs) = length b"
  by (simp add: memcpy_to_def)

lemma take_memcpy_to:
  "pos \<le> length b \<Longrightarrow> take (pos + length bs) (memcpy_to b pos bs) = take pos b @ bs"
  by (simp add: memcpy_to_def)

lemma read_loop_aligned:
  assumes ss: "0 < stripe_size cfg" and n: "length B < 2 ^ 63"
      and holds: "\<forall>j. j * stripe_size cfg < length B \<longrightarrow> stripe_holds cfg B p j"
  shows "i * stripe_size cfg \<le> length B \<Longrightarrow> length b = length B \<Longrightarrow>
         take (i * stripe_size cfg) b = take (i * stripe_size cfg) B \<Longrightarrow>
         read_loop cfg p 0 (length B) 0 (length B - i * stripe_size cfg)
           (i * stripe_size cfg) (i * stripe_size cfg) b
         = Some (int (length B), B)"
proof (induction "length B - i * stripe_size cfg" arbitrary: i b rule: less_induct)
  case less
  define ss where "ss = stripe_size cfg"
  define m where "m = length B"
  define dd where "dd = i * ss"
  define bl where "bl = take ss (drop dd B)"
  have ss0: "0 < ss" using ss by (simp add: ss_def)
  have le: "dd \<le> m" and lb: "length b = m" and tk: "take dd b = take dd B"
    using less.prems by (simp_all add: dd_def ss_def m_def)
  show ?case
  proof (cases "dd < m")
    case False
    with le have e: "dd = m" by simp
    then have "b = B" using tk lb by (simp add: m_def)
    moreover have "ssize_of m = int m" using n by (simp add: ssize_of_def u64_def m_def)
    ultimately show ?thesis
      using e by (subst read_loop.simps) (simp add: dd_def ss_def m_def)
  next
    case True
    then have h: "stripe_holds cfg B p i"
      using holds by (simp add: dd_def ss_def m_def)
    have d: "i * stripe_size cfg < length B" using True by (simp add: dd_def ss_def m_def)
    note it = read_loop_iter [OF ss n h d, of b, folded ss_def m_def, folded dd_def, folded bl_def]
    have lbl: "length bl = min ss (m - dd)" by (simp add: bl_def m_def)
    show ?thesis
    proof (cases "m - dd < ss")
      case short: True
      then have "bl = drop dd B" by (simp add: bl_def m_def)
      moreover have "dd + length (drop dd B) = m" using le by (simp add: m_def)
      ultimately have "memcpy_to b dd bl = take dd B @ drop dd B"
        using lb tk by (simp add: memcpy_to_def)
      then have "memcpy_to b dd bl = B" by simp
      with short show ?thesis
        unfolding ss_def [symmetric] m_def [symmetric] dd_def [symmetric]
        by (simp add: it)
    next
      case long: False
      then have lss: "length bl = ss" by (simp add: lbl)
      have le': "Suc i * ss \<le> m" using long le by (simp add: dd_def)
      have dec: "m - Suc i * ss < m - dd" using True ss0 by (simp add: dd_def)
      have l1: "length (memcpy_to b dd bl) = m"
        using long le lb lss by (simp add: length_memcpy_to)
      have "take (dd + length bl) (memcpy_to b dd bl) = take dd b @ bl"
        using le lb by (intro take_memcpy_to) simp
      also have "\<dots> = take (dd + ss) B" by (simp add: tk bl_def take_add)
      finally have t1: "take (Suc i * ss) (memcpy_to b dd bl) = take (Suc i * ss) B"
        by (simp add: lss dd_def add.commute)
      have "read_loop cfg p 0 m 0 (m - Suc i * ss) (Suc i * ss) (Suc i * ss) (memcpy_to b dd bl)
            = Some (int m, B)"
        using less.hyps [of "Suc i" "memcpy_to b dd bl"] dec le' l1 t1
        unfolding ss_def m_def dd_def by simp
      with long show ?thesis
        unfolding ss_def [symmetric] m_def [symmetric] dd_def [symmetric]
        by (simp add: it)
    qed
  qed
qed

text \<open>
  Without an inline buffer the bytes come back. On such an engine over a pool that
  holds no object of the file, with every registered operation ready, a stripe size
  above 0 and a pool size below \<open>2 ^ 63\<close>: for every byte sequence \<open>B\<close> of at least one
  byte and at most the size of the pool, \<open>writeSync\<close> of \<open>B\<close> at offset 0 returns 0, and
  the \<open>read\<close> of \<open>|B|\<close> bytes at offset 0 into a buffer of that length then returns \<open>|B|\<close>
  and leaves \<open>B\<close> in the buffer, whatever the buffer held before and with or without
  alignment. The read starts at the beginning of a stripe, so every piece but the last
  is a whole stripe.
\<close>

lemma round_trip_without_inline_buffer:
  assumes ss: "0 < stripe_size cfg" and ps: "pool_size cfg < 2 ^ 63"
      and n: "0 < length B" "length B \<le> pool_size cfg"
      and lb: "length buf = length B"
      and e: "objs st = Map.empty" and i: "mInlineBuffer st = None"
      and r: "list_all ready (mOperations st)"
  shows "\<exists>st1 st2. writeSync cfg st B 0 (length B) = (0, st1)
           \<and> read cfg junk st1 buf 0 (length B) = Some (int (length B), B, st2)"
proof -
  define st1 where "st1 = snd (writeSync cfg st B 0 (length B))"
  define st2 where "st2 = st1\<lparr>mOperations := []\<rparr>"
  note w = writeSync_on_empty [OF ss ps n e i r, folded st1_def]
  have w1: "writeSync cfg st B 0 (length B) = (0, st1)"
    using w(1) by (simp add: st1_def prod_eq_iff)
  have n63: "length B < 2 ^ 63" using n ps by simp
  have holds: "\<forall>j. j * stripe_size cfg < length B \<longrightarrow> stripe_holds cfg B (objs st1) j"
    by (rule w(2))
  have "stripe_holds cfg B (objs st1) 0" using holds n by simp
  then have base: "objs st1 0 \<noteq> None" by (auto simp: stripe_holds_def)
  have g: "getLastStripeIndexAndSize cfg (objs st1)
           = (int ((length B - 1) div stripe_size cfg), Some (length B))"
    using getLastStripeIndexAndSize_ok [of "objs st1" cfg] base n63 by (simp add: w(3))
  have u: "u64 (length B) = length B" using n63 by (simp add: u64_def)
  have loop: "read_loop cfg (objs st1) 0 (length B) 0 (length B - 0 * stripe_size cfg)
                (0 * stripe_size cfg) (0 * stripe_size cfg) buf = Some (int (length B), B)"
    by (rule read_loop_aligned [OF ss n63 holds]) (simp_all add: lb)
  have rs: "read_stripes cfg (objs st2) buf 0 0 (length B) = Some (int (length B), B)"
    using loop by (simp add: read_stripes_def g u Let_def st2_def)
  have sync: "OpsManager_sync st1 = Some st2"
    using w(4) by (simp add: OpsManager_sync_def st2_def)
  have pre: "read_prefix junk st2 buf 0 (length B) = None"
    by (simp add: read_prefix_def st2_def w(5))
  have "read cfg junk st1 buf 0 (length B) = Some (int (length B), B, st2)"
    using n(1) by (simp add: read_def sync pre rs)
  with w1 show ?thesis by blast
qed

lemma round_trip_without_inline_buffer_example:
  "0 < stripe_size cfg8 \<and> pool_size cfg8 < 2 ^ 63
   \<and> 0 < length ''ABCDEFGHIJKL'' \<and> length ''ABCDEFGHIJKL'' \<le> pool_size cfg8
   \<and> length ''............'' = length ''ABCDEFGHIJKL''
   \<and> objs fresh = Map.empty \<and> mInlineBuffer fresh = None
   \<and> list_all ready (mOperations fresh)
   \<and> (\<exists>st1 st2. writeSync cfg8 fresh ''ABCDEFGHIJKL'' 0 12 = (0, st1)
           \<and> read cfg8 (\<lambda>_. CHR 0x00) st1 ''............'' 0 12
               = Some (12, ''ABCDEFGHIJKL'', st2))"
proof -
  have ss: "0 < stripe_size cfg8" and ps: "pool_size cfg8 < 2 ^ 63"
    and n: "0 < length ''ABCDEFGHIJKL''" "length ''ABCDEFGHIJKL'' \<le> pool_size cfg8"
    by (simp_all add: cfg8_def)
  have lb: "length ''............'' = length ''ABCDEFGHIJKL''" by simp
  have e: "objs fresh = Map.empty" and i: "mInlineBuffer fresh = None"
    and r: "list_all ready (mOperations fresh)"
    by (simp_all add: fresh_def)
  have l: "length ''ABCDEFGHIJKL'' = 12" by simp
  from round_trip_without_inline_buffer [OF ss ps n lb e i r, of "\<lambda>_. CHR 0x00"]
  have "\<exists>st1 st2. writeSync cfg8 fresh ''ABCDEFGHIJKL'' 0 12 = (0, st1)
           \<and> read cfg8 (\<lambda>_. CHR 0x00) st1 ''............'' 0 12
               = Some (12, ''ABCDEFGHIJKL'', st2)"
    unfolding l by simp
  with ss ps n lb e i r show ?thesis by blast
qed

subsection \<open>Reading back behind an inline buffer\<close>

lemma fileSizeToHex_10: "fileSizeToHex 10 = ''000000000000000a''"
  by (simp add: fileSizeToHex_def hexdigit_def hex_fixed_numeral)

lemma strtoul16_10: "strtoul16 ''000000000000000a'' = 10"
  by (simp add: strtoul16_def hexval_def)

lemma writeSync_ABCDEFGHIJ_inline4:
  "writeSync cfg8 inline4 ''ABCDEFGHIJ'' 0 10 =
     (0, inline4\<lparr>objs := [0 \<mapsto> \<lparr>data = [CHR 0x00, CHR 0x00, CHR 0x00, CHR 0x00,
                                           CHR ''E'', CHR ''F'', CHR ''G'', CHR ''H''],
                                   omap_file_size = Some ''000000000000000a''\<rparr>,
                          1 \<mapsto> \<lparr>data = ''IJ'', omap_file_size = None\<rparr>],
                 mOperations := [\<lparr>op_id = 0, ready = True\<rparr>], uuid_next := 1,
                 mInlineBuffer := Some \<lparr>capacity = 4, contents = ''ABCD''\<rparr>\<rparr>)"
  by (simp add: write_eval inline4_def ib_write_def size_of_int_def fileSizeToHex_10)

text \<open>
  Claim C1. What \<open>writeSync\<close> has put at offset 0 of a fresh file should come back from
  the \<open>read\<close> of the same range. The loop of \<open>read\<close> leaves through its \<open>break\<close> as soon as
  \<open>bytesToRead < mStripeSize\<close> holds, before \<open>bytesToRead\<close> is reduced by the piece just
  read; it takes that piece for the last one. The piece is shorter than what is owed
  when the loop starts inside a stripe, which is where the inline block leaves it when
  the capacity of the inline buffer is not a multiple of the stripe size. With an inline
  buffer of 4 bytes and stripes of 8 bytes, the write of \<open>ABCDEFGHIJ\<close> returns 0, records
  the size 10 and stores \<open>ABCD\<close> inline, \<open>EFGH\<close> at offset 4 of stripe 0 and \<open>IJ\<close> in
  stripe 1. The read of 10 bytes at offset 0 takes 4 bytes from the inline buffer and 4
  from stripe 0, then leaves the loop with 6 bytes owed, which is less than 8: it returns
  8, and the last two bytes of the caller's buffer are what they were.
\<close>

theorem read_after_inline_prefix_stops_short:
  "fst (writeSync cfg8 inline4 ''ABCDEFGHIJ'' 0 10) = 0
   \<and> getSize cfg8 (objs (snd (writeSync cfg8 inline4 ''ABCDEFGHIJ'' 0 10))) = 10
   \<and> map_option data (objs (snd (writeSync cfg8 inline4 ''ABCDEFGHIJ'' 0 10)) 1) = Some ''IJ''
   \<and> map_option (\<lambda>(r, b, s). (r, b))
        (read cfg8 junk (snd (writeSync cfg8 inline4 ''ABCDEFGHIJ'' 0 10)) ''..........'' 0 10)
      = Some (8, ''ABCDEFGH..'')"
  unfolding writeSync_ABCDEFGHIJ_inline4
  by (simp add: read_eval inline4_def fresh_def strtoul16_10 getSize_eq stored_size_attr_def
      read_inline_def c_str_at_def)

section \<open>Well-formed files are what the engine leaves\<close>

text \<open>
  The hypothesis of the truncation theorem is met by the files the engine itself
  produces: the empty pool is well-formed, and \<open>remove\<close>, \<open>truncate\<close> (see above) and a
  valid synchronous write keep a file well-formed.
\<close>

lemma file_inv_empty: "file_inv cfg Map.empty"
  by (simp add: file_inv_def getSize_def getLastStripeIndexAndSize_def)

lemma op_write_exists: "p j \<noteq> None \<Longrightarrow> op_write p i off bs j \<noteq> None"
  by (cases "p i") (auto simp: op_write_def)

lemma op_write_here: "op_write p i off bs i \<noteq> None"
  by (cases "p i") (auto simp: op_write_def)

lemma realWrite_loop_exists:
  "p j \<noteq> None \<Longrightarrow> realWrite_loop cfg buff blen firstStripe k i cur btw p j \<noteq> None"
proof (induction k arbitrary: i cur btw p)
  case 0
  then show ?case by simp
next
  case (Suc k)
  show ?case
    by (simp only: realWrite_loop.simps Let_def) (rule Suc.IH, rule op_write_exists, rule Suc.prems)
qed

lemma remove_io_file_inv:
  assumes "file_inv cfg (objs st)" and "remove_io cfg st = Some (r, st')"
  shows "file_inv cfg (objs st')"
proof (cases "getLastStripeIndex cfg (objs st) < 0")
  case True
  from assms(2) have "list_all ready (mOperations st)"
    by (auto simp: remove_io_def OpsManager_sync_def Let_def split: if_splits)
  with assms(2) True have "objs st' = objs st"
    by (auto simp: remove_io_def OpsManager_sync_def Let_def)
  with assms(1) show ?thesis by simp
next
  case False
  then have base: "objs st 0 \<noteq> None"
    by (auto simp: getLastStripeIndex_def getLastStripeIndexAndSize_def ENOENT_def
        split: option.splits)
  define v where "v = getSize cfg (objs st)"
  define l where "l = (v - 1) div stripe_size cfg"
  have ls: "getLastStripeIndex cfg (objs st) = int l"
    and v63: "v < 2 ^ 63"
  proof -
    have "v < 2 ^ 63"
    proof (rule ccontr)
      assume a: "\<not> v < 2 ^ 63"
      obtain ob where ob: "objs st 0 = Some ob" using base by auto
      have v64: "v < 2 ^ 64" unfolding v_def getSize_eq by (rule strtoul16_bound)
      have "ssize_of v < 0" using a v64 by (simp add: ssize_of_def u64_def)
      moreover have "(case omap_file_size ob of None \<Rightarrow> 0 | Some s \<Rightarrow> ssize_of (strtoul16 s))
                     = ssize_of v"
      proof (cases "omap_file_size ob")
        case None
        then have "v = 0" by (simp add: v_def getSize_eq stored_size_attr_def ob strtoul16_def)
        with a show ?thesis by simp
      next
        case (Some s)
        then show ?thesis by (simp add: v_def getSize_eq stored_size_attr_def ob)
      qed
      ultimately have "getLastStripeIndex cfg (objs st) < 0"
        by (simp add: getLastStripeIndex_def getLastStripeIndexAndSize_def ob Let_def)
      with False show False by simp
    qed
    then show "v < 2 ^ 63" .
    then show "getLastStripeIndex cfg (objs st) = int l"
      using getLastStripeIndexAndSize_ok [of "objs st" cfg] base
      by (simp add: getLastStripeIndex_def v_def l_def)
  qed
  have bound: "objs st j \<noteq> None \<Longrightarrow> j \<le> l" for j
    using assms(1) by (simp add: file_inv_def v_def l_def)
  have "l \<le> v - 1" unfolding l_def by (rule div_le_dividend)
  moreover have "v < 9223372036854775808" using v63 by simp
  ultimately have "l < 18446744073709551616" by linarith
  then have "l < 2 ^ 64" by simp
  then have sz: "size_of_int (int l) = l"
    by (simp add: size_of_int_int)
  from assms(2) have rdy: "list_all ready (mOperations st)"
    by (auto simp: remove_io_def OpsManager_sync_def Let_def split: if_splits)
  have "remove_io cfg st = Some (0, setReady
          ((addOperation (st\<lparr>uuid_next := Suc (uuid_next st), mOperations := []\<rparr>) (uuid_next st))
             \<lparr>objs := remove_loop (Suc l) 0 (objs st)\<rparr>) (uuid_next st))"
    using rdy False
    by (simp add: remove_io_def OpsManager_sync_def Let_def ls sz del: remove_loop.simps)
  with assms(2) have "objs st' = remove_loop (Suc l) 0 (objs st)"
    by (auto simp: setReady_def simp del: remove_loop.simps)
  then have "objs st' j = None" for j
  proof (cases "j < Suc l")
    case True
    with \<open>objs st' = remove_loop (Suc l) 0 (objs st)\<close> show ?thesis
      by (simp add: remove_loop_at del: remove_loop.simps)
  next
    case False
    with bound [of j] have "objs st j = None" by (cases "objs st j") auto
    with False \<open>objs st' = remove_loop (Suc l) 0 (objs st)\<close> show ?thesis
      by (simp add: remove_loop_at del: remove_loop.simps)
  qed
  then have "objs st' = Map.empty" by auto
  then show ?thesis by (simp add: file_inv_empty)
qed

lemma setSizeIfBigger_base:
  "snd (setSizeIfBigger p sz) 0 \<noteq> None"
proof (cases "bl_less (stored_size_attr p) (fileSizeToHex sz)")
  case True
  then show ?thesis by (simp add: setSizeIfBigger_def Let_def op_omap_set_base)
next
  case False
  have "p 0 \<noteq> None"
  proof
    assume "p 0 = None"
    then have "stored_size_attr p = []" by (simp add: stored_size_attr_def)
    with False bl_less_Nil_fileSizeToHex [of sz] show False by simp
  qed
  with False show ?thesis by (simp add: setSizeIfBigger_def Let_def)
qed

lemma setSizeIfBigger_other:
  "j \<noteq> 0 \<Longrightarrow> snd (setSizeIfBigger p sz) j = p j"
  by (simp add: setSizeIfBigger_def Let_def op_omap_set_other)

lemma realWrite_stripes_file_inv:
  assumes ss: "0 < stripe_size cfg" and ps: "pool_size cfg < 2 ^ 63"
      and inv: "file_inv cfg (objs st)" and wf: "size_attr_wf (objs st)"
      and b: "0 < blen" and T: "offset + blen \<le> pool_size cfg"
  shows "file_inv cfg (objs (snd (realWrite_stripes cfg st buff offset blen opId)))"
proof -
  define ss where "ss = stripe_size cfg"
  define T where "T = offset + blen"
  define cur where "cur = getSize cfg (objs st)"
  define fs where "fs = offset div ss"
  define ls where "ls = (T - 1) div ss"
  define p1 where "p1 = snd (setSizeIfBigger (objs st) T)"
  define p2 where "p2 = realWrite_loop cfg buff blen fs (Suc (ls - fs)) 0 (offset mod ss) blen p1"
  have ss0: "0 < ss" using ss by (simp add: ss_def)
  have "T < 9223372036854775808" using T ps by (simp add: T_def)
  then have T64: "T < 2 ^ 64" by simp
  then have u: "u64 T = T" by (simp add: u64_def)
  have T0: "0 < T" using b by (simp add: T_def)
  have "offset \<le> T - 1" using b by (simp add: T_def)
  then have fl: "fs \<le> ls" unfolding fs_def ls_def by (rule div_le_mono)
  have "ls \<le> T - 1" unfolding ls_def by (rule div_le_dividend)
  with \<open>T < 9223372036854775808\<close> have "ls - fs + 1 < 18446744073709551616" by linarith
  then have "ls - fs + 1 < 2 ^ 64" by simp
  then have t3: "u64 (ls - fs + 1) = Suc (ls - fs)" by (simp add: u64_def)
  have t1: "u64_sub T 1 = T - 1" using T0 by (auto simp: u64_sub_def Suc_le_eq)
  have t2: "u64_sub ls fs = ls - fs" using fl by (simp add: u64_sub_def)
  have o: "objs (snd (realWrite_stripes cfg st buff offset blen opId)) = p2"
    unfolding realWrite_stripes_def Let_def
    by (simp only: T_def [symmetric] ss_def [symmetric] u t1 ls_def [symmetric]
        fs_def [symmetric] t2 t3 p1_def [symmetric] p2_def [symmetric])
      (simp add: setReady_def)
  have sz: "getSize cfg p2 = max cur T"
    using getSize_setSizeIfBigger [OF wf, of cfg T]
    by (simp add: getSize_eq p2_def p1_def u cur_def del: realWrite_loop.simps)
  have cur: "cur \<le> pool_size cfg" using inv by (simp add: file_inv_def cur_def)
  have base: "p2 0 \<noteq> None"
    unfolding p2_def p1_def by (rule realWrite_loop_exists) (rule setSizeIfBigger_base)
  have bound: "j \<le> (max cur T - 1) div ss" if "p2 j \<noteq> None" for j
  proof (cases "fs + 0 \<le> j \<and> j < fs + 0 + Suc (ls - fs)")
    case True
    then have "j \<le> ls" using fl by simp
    also have "ls \<le> (max cur T - 1) div ss"
      unfolding ls_def by (rule div_le_mono) simp
    finally show ?thesis .
  next
    case False
    then have "j < fs + 0 \<or> fs + 0 + Suc (ls - fs) \<le> j" by auto
    then have "p2 j = p1 j" unfolding p2_def by (rule realWrite_loop_other)
    with that have p1j: "p1 j \<noteq> None" by simp
    show ?thesis
    proof (cases "j = 0")
      case True
      then show ?thesis by simp
    next
      case nz: False
      with p1j have "objs st j \<noteq> None"
        by (simp add: p1_def setSizeIfBigger_other)
      with inv have "j \<le> (cur - 1) div ss" by (simp add: file_inv_def cur_def ss_def)
      also have "\<dots> \<le> (max cur T - 1) div ss" by (rule div_le_mono) simp
      finally show ?thesis .
    qed
  qed
  show ?thesis
    unfolding o file_inv_def sz ss_def [symmetric]
    using cur T base bound by (auto simp: T_def)
qed

lemma writeSync_file_inv:
  assumes "0 < stripe_size cfg" and "pool_size cfg < 2 ^ 63"
      and "file_inv cfg (objs st)" and "size_attr_wf (objs st)"
      and "mInlineBuffer st = None"
      and "0 < blen" and "offset + blen \<le> pool_size cfg"
  shows "file_inv cfg (objs (snd (writeSync cfg st buff offset blen)))"
proof -
  let ?st1 = "addOperation (st\<lparr>uuid_next := Suc (uuid_next st)\<rparr>) (uuid_next st)"
  have "offset + blen < 18446744073709551616" using assms(2,7) by simp
  then have "u64 (offset + blen) = offset + blen" by (simp add: u64_def)
  then have v: "verifyWriteParams cfg offset blen = 0"
    using assms(6,7) by (simp add: verifyWriteParams_def)
  have i: "mInlineBuffer ?st1 = None" using assms(5) by (simp add: addOperation_def)
  have w: "writeSync cfg st buff offset blen
           = realWrite_stripes cfg ?st1 buff offset blen (uuid_next st)"
    by (simp add: writeSync_def v Let_def realWrite_def i)
  show ?thesis
    unfolding w
    by (rule realWrite_stripes_file_inv) (use assms in simp_all)
qed

end
